theory Spec2Isabelle
  imports Main "HOL-Library.Multiset" "HOL-Library.AList"
begin

section \<open>Outbound Traffic Dashboard (out.js): a shallow embedding\<close>

text \<open>
  The dashboard logic of \<^verbatim>\<open>out.js\<close> is embedded function by function. The global
  \<^verbatim>\<open>state\<close> object becomes a record that every operation takes and returns; calls to the
  outside world (\<^verbatim>\<open>cockpit.spawn\<close>, \<^verbatim>\<open>setTimeout\<close>, the DOM helpers) are appended to a
  trace of effects, and the asynchronous continuations (\<^verbatim>\<open>.then\<close>, \<^verbatim>\<open>.catch\<close>, timer
  callbacks) are functions of their own that take the value the outside world delivers.
  A JavaScript exception is a value: an operation that can throw returns an outcome
  that holds the state at the point of the throw.
\<close>

subsection \<open>Strings\<close>

text \<open>
  A JavaScript string is modelled as a \<^typ>\<open>string\<close>, one \<^typ>\<open>char\<close> per code unit, which
  covers the code units below 256. \<^verbatim>\<open>String.prototype.trim\<close> removes white space and line
  terminators at both ends; below 256 these are TAB, LF, VT, FF, CR, SPACE and NBSP.
\<close>

definition isWhiteSpace :: "char \<Rightarrow> bool" where
  "isWhiteSpace c \<longleftrightarrow>
     c \<in> {CHR 0x09, CHR 0x0A, CHR 0x0B, CHR 0x0C, CHR 0x0D, CHR '' '', CHR 0xA0}"

definition js_trim :: "string \<Rightarrow> string" where
  "js_trim s = rev (dropWhile isWhiteSpace (rev (dropWhile isWhiteSpace s)))"

text \<open>
  \<^verbatim>\<open>s.split(sep)\<close> for a one-character separator: the pieces between the separators,
  empty pieces included; the empty string splits into one empty piece.
\<close>

fun js_split :: "char \<Rightarrow> string \<Rightarrow> string list" where
  "js_split sep [] = [[]]"
| "js_split sep (c # cs) =
     (if c = sep then [] # js_split sep cs
      else (case js_split sep cs of [] \<Rightarrow> [[c]] | p # ps \<Rightarrow> (c # p) # ps))"

text \<open>The relational operator \<^verbatim>\<open><\<close> on two strings compares code units, left to right.\<close>

fun js_less :: "string \<Rightarrow> string \<Rightarrow> bool" where
  "js_less [] [] = False"
| "js_less [] (y # ys) = True"
| "js_less (x # xs) [] = False"
| "js_less (x # xs) (y # ys) =
     (if (of_char x :: nat) < of_char y then True
      else if (of_char y :: nat) < of_char x then False
      else js_less xs ys)"

text \<open>
  \<^verbatim>\<open>toLowerCase\<close> on code units below 256: A to Z, and the Latin-1 capitals 0xC0 to 0xDE
  except the multiplication sign 0xD7, move up by 32.
\<close>

definition lowerChar :: "char \<Rightarrow> char" where
  "lowerChar c =
     (let n = (of_char c :: nat)
      in if (65 \<le> n \<and> n \<le> 90) \<or> (192 \<le> n \<and> n \<le> 222 \<and> n \<noteq> 215)
         then char_of (n + 32) else c)"

definition toLowerCase :: "string \<Rightarrow> string" where
  "toLowerCase s = map lowerChar s"

subsection \<open>Plain objects used as dictionaries\<close>

text \<open>
  \<^verbatim>\<open>recordMap\<close>, the two caches and the two in-flight tables are object literals
  \<^verbatim>\<open>{}\<close> indexed by strings that come from the log. Such an object has its own
  properties, in creation order, and a prototype, \<^verbatim>\<open>Object.prototype\<close> at first. The model
  keeps what the operations of \<^verbatim>\<open>out.js\<close> can observe:

  \<^item> \<^verbatim>\<open>obj.hasOwnProperty(k)\<close> looks the method up on the object first. An own property
    named \<^verbatim>\<open>hasOwnProperty\<close> shadows the inherited method; the values stored here are never
    functions, so the call throws a TypeError. It throws as well once the prototype is
    \<^verbatim>\<open>null\<close>.
  \<^item> \<^verbatim>\<open>obj[k] = v\<close> with \<^verbatim>\<open>k = "__proto__"\<close> runs the setter inherited from
    \<^verbatim>\<open>Object.prototype\<close>: no own property is created. An object value becomes the
    prototype (an ordinary object that inherits from \<^verbatim>\<open>Object.prototype\<close> in turn, so that
    nothing the operations here observe changes), \<^verbatim>\<open>null\<close> removes the prototype, and any
    other value is ignored. Every other key creates or overwrites an own property.
  \<^item> \<^verbatim>\<open>obj[k]\<close> read for its truth value finds inherited properties too.
\<close>

datatype error = TypeError

record 'v jsobj =
  own :: "(string \<times> 'v) list"
  protoNull :: bool

datatype valueKind = ObjectValue | NullValue | PrimitiveValue

definition emptyObject :: "'v jsobj" where
  "emptyObject = \<lparr>own = [], protoNull = False\<rparr>"

definition hasOwn :: "'v jsobj \<Rightarrow> string \<Rightarrow> bool" where
  "hasOwn obj k \<longleftrightarrow> map_of (own obj) k \<noteq> None"

definition hasOwnProperty :: "'v jsobj \<Rightarrow> string \<Rightarrow> error + bool" where
  "hasOwnProperty obj k =
     (if hasOwn obj ''hasOwnProperty'' \<or> protoNull obj then Inl TypeError
      else Inr (hasOwn obj k))"

definition getProperty :: "'v jsobj \<Rightarrow> string \<Rightarrow> 'v option" where
  "getProperty obj k = map_of (own obj) k"

definition setProperty :: "string \<Rightarrow> 'v \<Rightarrow> valueKind \<Rightarrow> 'v jsobj \<Rightarrow> 'v jsobj" where
  "setProperty k v kind obj =
     (if k = ''__proto__'' \<and> \<not> protoNull obj \<and> \<not> hasOwn obj ''__proto__''
      then (if kind = NullValue then obj\<lparr>protoNull := True\<rparr> else obj)
      else obj\<lparr>own := AList.update k v (own obj)\<rparr>)"

definition deleteProperty :: "string \<Rightarrow> 'v jsobj \<Rightarrow> 'v jsobj" where
  "deleteProperty k obj = obj\<lparr>own := AList.delete k (own obj)\<rparr>"

text \<open>The property names every object inherits from \<^verbatim>\<open>Object.prototype\<close>.\<close>

definition objectPrototypeNames :: "string list" where
  "objectPrototypeNames =
     [''constructor'', ''__defineGetter__'', ''__defineSetter__'', ''hasOwnProperty'',
      ''__lookupGetter__'', ''__lookupSetter__'', ''isPrototypeOf'', ''propertyIsEnumerable'',
      ''toString'', ''valueOf'', ''__proto__'', ''toLocaleString'']"

text \<open>
  \<^verbatim>\<open>if (table[k])\<close> on an in-flight table, whose own values are all \<^verbatim>\<open>true\<close>: an own
  property, or a property inherited from \<^verbatim>\<open>Object.prototype\<close> (a function, or the
  prototype itself for \<^verbatim>\<open>__proto__\<close>), is truthy.
\<close>

definition truthyProperty :: "bool jsobj \<Rightarrow> string \<Rightarrow> bool" where
  "truthyProperty obj k \<longleftrightarrow>
     (case map_of (own obj) k of Some b \<Rightarrow> b
      | None \<Rightarrow> \<not> protoNull obj \<and> k \<in> set objectPrototypeNames)"

text \<open>
  \<^verbatim>\<open>for (k in obj)\<close> visits the own keys that are array indices (canonical decimal
  numerals below \<open>2\<^sup>3\<^sup>2 - 1\<close>) in ascending numeric order first, then the other own keys in
  creation order.
\<close>

definition isDigit :: "char \<Rightarrow> bool" where
  "isDigit c \<longleftrightarrow> 48 \<le> (of_char c :: nat) \<and> (of_char c :: nat) \<le> 57"

definition digitValue :: "char \<Rightarrow> nat" where
  "digitValue c = of_char c - 48"

definition decimalValue :: "string \<Rightarrow> nat" where
  "decimalValue s = foldl (\<lambda>n c. 10 * n + digitValue c) 0 s"

definition isArrayIndex :: "string \<Rightarrow> bool" where
  "isArrayIndex s \<longleftrightarrow>
     s \<noteq> [] \<and> list_all isDigit s \<and> (s = ''0'' \<or> hd s \<noteq> CHR ''0'')
     \<and> decimalValue s < 4294967295"

definition forInOrder :: "(string \<times> 'v) list \<Rightarrow> (string \<times> 'v) list" where
  "forInOrder ps =
     sort_key (\<lambda>p. decimalValue (fst p)) (filter (\<lambda>p. isArrayIndex (fst p)) ps)
     @ filter (\<lambda>p. \<not> isArrayIndex (fst p)) ps"

subsection \<open>Parsing: parseTimestamp and parseShellOutput\<close>

text \<open>
  What the browser supplies is a parameter: \<open>dateParse\<close> is the time value of
  \<^verbatim>\<open>new Date(str)\<close> in milliseconds since the epoch, \<open>None\<close> for an invalid date (the
  accepted formats are implementation-defined); \<open>currentYear\<close> is
  \<^verbatim>\<open>new Date().getFullYear()\<close> as text; \<open>todayStr\<close> is
  \<^verbatim>\<open>new Date().toISOString().slice(0, 10)\<close>; \<open>typeErrorMessage\<close> is the engine's
  wording of the \<^verbatim>\<open>message\<close> of a TypeError.
\<close>

record env =
  dateParse :: "string \<Rightarrow> int option"
  currentYear :: string
  todayStr :: string
  typeErrorMessage :: string

text \<open>A \<^verbatim>\<open>Date\<close> is its time value; \<^verbatim>\<open>new Date(0)\<close> is \<open>0\<close>.\<close>

definition parseTimestamp :: "env \<Rightarrow> string \<Rightarrow> int" where
  "parseTimestamp e timestampStr =
     (if timestampStr = [] \<or> js_trim timestampStr = [] then 0
      else (case dateParse e (js_trim timestampStr @ '' '' @ currentYear e) of
              None \<Rightarrow> 0
            | Some parsed \<Rightarrow> parsed))"

text \<open>The log objects pushed by \<^verbatim>\<open>parseShellOutput\<close>: \<^verbatim>\<open>{type, timestamp, url, address}\<close>.\<close>

record logEntry =
  log_type :: string
  log_timestamp :: int
  log_url :: string
  log_address :: string

text \<open>
  The body of the loop of \<^verbatim>\<open>parseShellOutput\<close> after \<^verbatim>\<open>line.split("|")\<close>: the entries
  one line adds to \<^verbatim>\<open>logs\<close>. With three parts or more \<^verbatim>\<open>parts[2]\<close> is a string, and
  \<^verbatim>\<open>parts[2] || ""\<close> is that string.
\<close>

definition parseParts :: "env \<Rightarrow> string list \<Rightarrow> logEntry list" where
  "parseParts e parts =
     (if length parts < 3 then []
      else
        let type = parts ! 0;
            timestamp = parseTimestamp e (parts ! 1)
        in if type = ''DNS''
           then [\<lparr>log_type = ''DNS'', log_timestamp = timestamp,
                  log_url = parts ! 2, log_address = ''''\<rparr>]
           else if type = ''HTTPS'' \<or> type = ''HTTP'' \<or> type = ''PING''
           then [\<lparr>log_type = type, log_timestamp = timestamp,
                  log_url = '''', log_address = parts ! 2\<rparr>]
           else [])"

definition parseLine :: "env \<Rightarrow> string \<Rightarrow> logEntry list" where
  "parseLine e raw =
     (let line = js_trim raw
      in if line = [] then [] else parseParts e (js_split CHR ''|'' line))"

definition parseShellOutput :: "env \<Rightarrow> string \<Rightarrow> logEntry list" where
  "parseShellOutput e output =
     (if output = [] \<or> js_trim output = [] then []
      else concat (map (parseLine e) (js_split CHR 0x0A (js_trim output))))"

subsection \<open>Aggregation: processLogs and updateExistingRecord\<close>

text \<open>
  A traffic record, with the field names of the source. Time stamps are time values;
  \<^verbatim>\<open>parseTimestamp\<close> never returns an invalid date. \<^verbatim>\<open>frequency\<close> is an integer (the
  source counts in doubles, exact below \<open>2\<^sup>5\<^sup>3\<close>).
\<close>

record trafficRecord =
  url :: string
  address :: string
  firstTimestamp :: int
  lastTimestamp :: int
  frequency :: int
  category :: string
  data :: string
  type :: string

definition updateExistingRecord :: "trafficRecord \<Rightarrow> trafficRecord \<Rightarrow> trafficRecord" where
  "updateExistingRecord existingRecord newEntry =
     (let r1 = (if firstTimestamp newEntry < firstTimestamp existingRecord
                then existingRecord\<lparr>firstTimestamp := firstTimestamp newEntry\<rparr>
                else existingRecord);
          r2 = (if lastTimestamp newEntry > lastTimestamp r1
                then r1\<lparr>lastTimestamp := lastTimestamp newEntry\<rparr> else r1);
          r3 = r2\<lparr>frequency := frequency r2 + 1\<rparr>;
          r4 = (if url r3 = [] \<and> url newEntry \<noteq> [] then r3\<lparr>url := url newEntry\<rparr> else r3)
      in if address r4 = [] \<and> address newEntry \<noteq> []
         then r4\<lparr>address := address newEntry\<rparr> else r4)"

text \<open>The temporary record \<^verbatim>\<open>lambda\<close> that \<^verbatim>\<open>processLogs\<close> builds for one log entry.\<close>

definition lambdaOf :: "logEntry \<Rightarrow> trafficRecord" where
  "lambdaOf log =
     \<lparr>url = log_url log, address = log_address log,
      firstTimestamp = log_timestamp log, lastTimestamp = log_timestamp log,
      frequency = 1, category = '''', data = '''', type = log_type log\<rparr>"

text \<open>\<^verbatim>\<open>lambda.url || lambda.address\<close>, the key the record is stored under.\<close>

definition keyOf :: "trafficRecord \<Rightarrow> string" where
  "keyOf r = (if url r \<noteq> [] then url r else address r)"

text \<open>
  The first loop of \<^verbatim>\<open>processLogs\<close>. \<^verbatim>\<open>updateExistingRecord(recordMap[key], lambda)\<close>
  mutates the record the map holds, which the model writes back under its key.
\<close>

fun processLogs_loop :: "logEntry list \<Rightarrow> trafficRecord jsobj \<Rightarrow> error + trafficRecord jsobj" where
  "processLogs_loop [] recordMap = Inr recordMap"
| "processLogs_loop (log # rawLogs) recordMap =
     (let lambda = lambdaOf log; key = keyOf lambda
      in if key = [] then processLogs_loop rawLogs recordMap
         else (case hasOwnProperty recordMap key of
                 Inl err \<Rightarrow> Inl err
               | Inr True \<Rightarrow>
                   (case getProperty recordMap key of
                      None \<Rightarrow> processLogs_loop rawLogs recordMap
                    | Some existingRecord \<Rightarrow>
                        processLogs_loop rawLogs
                          (recordMap\<lparr>own := AList.update key
                             (updateExistingRecord existingRecord lambda) (own recordMap)\<rparr>))
               | Inr False \<Rightarrow>
                   processLogs_loop rawLogs (setProperty key lambda ObjectValue recordMap)))"

text \<open>
  The second loop: \<^verbatim>\<open>for (var k in recordMap) if (recordMap.hasOwnProperty(k)) ...\<close>.
  Keys inherited from a prototype installed through \<^verbatim>\<open>__proto__\<close> are visited and
  filtered out; the call throws at the first key when \<^verbatim>\<open>hasOwnProperty\<close> is shadowed.
\<close>

definition recordsOf :: "trafficRecord jsobj \<Rightarrow> error + trafficRecord list" where
  "recordsOf recordMap =
     (if hasOwn recordMap ''hasOwnProperty'' then Inl TypeError
      else Inr (map snd (forInOrder (own recordMap))))"

definition processLogs :: "logEntry list \<Rightarrow> error + trafficRecord list" where
  "processLogs rawLogs =
     (case processLogs_loop rawLogs emptyObject of
        Inl err \<Rightarrow> Inl err
      | Inr recordMap \<Rightarrow> recordsOf recordMap)"

subsection \<open>The global state and the outside world\<close>

text \<open>
  Calls that leave the script, in the order they are made. \<open>SetTimeout d key idx\<close> is
  \<^verbatim>\<open>setTimeout(function () { performIpInfoLookup(key, idx); }, d)\<close>; \<open>SpawnHost ip\<close> and
  \<open>SpawnIpInfo key\<close> are the two \<^verbatim>\<open>cockpit.spawn\<close> lookups; \<open>SpawnFetchLogs\<close> runs the
  collector script; \<open>FileReplace\<close> is \<^verbatim>\<open>cockpit.file(path).replace(content)\<close>. The DOM
  helpers are recorded by name.
\<close>

datatype effect =
    ShowLoading
  | HideLoading
  | ShowError string
  | HideError
  | RenderTable
  | UpdateStatusBar
  | SpawnFetchLogs "string option" string
  | SpawnHost string
  | SpawnIpInfo string
  | SetTimeout nat string nat
  | FileRead string
  | FileReplace string string

text \<open>The object cached for a key by a successful ipinfo lookup.\<close>

record ipInfoResult =
  ip :: string
  hostname :: string
  org :: string
  timezone :: string

text \<open>
  The fields of \<^verbatim>\<open>state\<close> that the fetch, the enrichment and the sort read or write. A
  cached \<^verbatim>\<open>null\<close> is \<open>None\<close>. The effects are the trace of the calls made so far.
\<close>

datatype column =
    Url | Address | FirstTimestamp | LastTimestamp | Frequency | Category | Data | Type
  | NoSuchProperty

record state =
  timeRange :: string
  trafficRecords :: "trafficRecord list"
  sortColumn :: column
  sortDirection :: string
  reverseDnsCache :: "string option jsobj"
  pendingDnsLookups :: "bool jsobj"
  scriptPath :: "string option"
  isFetching :: bool
  ipInfoCache :: "ipInfoResult option jsobj"
  pendingIpInfoLookups :: "bool jsobj"
  ipInfoDailyLimit :: int
  ipInfoDailyCount :: int
  ipInfoUsagePath :: "string option"
  effects :: "effect list"

text \<open>
  The result of an operation that can throw: \<open>Throws err s\<close> is an exception raised in
  state \<open>s\<close>, with the mutations made before the throw in place.
\<close>

datatype 'a outcome = Normal 'a | Throws error 'a

subsection \<open>Reverse DNS enrichment\<close>

definition performReverseDns :: "string \<Rightarrow> nat \<Rightarrow> state \<Rightarrow> state outcome" where
  "performReverseDns ipAddress recordIndex s =
     (case hasOwnProperty (reverseDnsCache s) ipAddress of
        Inl err \<Rightarrow> Throws err s
      | Inr True \<Rightarrow>
          (case getProperty (reverseDnsCache s) ipAddress of
             Some (Some cached) \<Rightarrow>
               if cached \<noteq> [] \<and> recordIndex < length (trafficRecords s)
               then Normal (s\<lparr>trafficRecords :=
                      (trafficRecords s)[recordIndex :=
                         (trafficRecords s ! recordIndex)\<lparr>url := cached\<rparr>]\<rparr>)
               else Normal s
           | _ \<Rightarrow> Normal s)
      | Inr False \<Rightarrow>
          if truthyProperty (pendingDnsLookups s) ipAddress then Normal s
          else Normal (s\<lparr>pendingDnsLookups :=
                           setProperty ipAddress True PrimitiveValue (pendingDnsLookups s),
                         effects := effects s @ [SpawnHost ipAddress]\<rparr>))"

text \<open>The loop of \<^verbatim>\<open>enrichWithReverseDns\<close>, from index \<open>i\<close> on.\<close>

function enrichWithReverseDns_from :: "nat \<Rightarrow> state \<Rightarrow> state outcome" where
  "enrichWithReverseDns_from i s =
     (if i < length (trafficRecords s)
      then if address (trafficRecords s ! i) \<noteq> [] \<and> url (trafficRecords s ! i) = []
           then (case performReverseDns (address (trafficRecords s ! i)) i s of
                   Throws err s' \<Rightarrow> Throws err s'
                 | Normal s' \<Rightarrow> enrichWithReverseDns_from (Suc i) s')
           else enrichWithReverseDns_from (Suc i) s
      else Normal s)"
  by pat_completeness auto
termination
  by (relation "measure (\<lambda>(i, s). length (trafficRecords s) - i)")
     (auto simp: performReverseDns_def split: sum.splits bool.splits option.splits if_splits)

declare enrichWithReverseDns_from.simps [simp del]

definition enrichWithReverseDns :: "state \<Rightarrow> state outcome" where
  "enrichWithReverseDns s = enrichWithReverseDns_from 0 s"

text \<open>
  The continuations of the \<^verbatim>\<open>host\<close> lookup. \<open>match\<close> is the first capture group of
  \<^verbatim>\<open>/domain name pointer\s+(.+)\.$/m\<close> on the output (\<^verbatim>\<open>hostname\<close> in the source),
  \<open>None\<close> when the output does not match.
\<close>

definition reverseDnsNegative :: "string \<Rightarrow> state \<Rightarrow> state" where
  "reverseDnsNegative ipAddress s =
     s\<lparr>reverseDnsCache := setProperty ipAddress None NullValue (reverseDnsCache s),
       pendingDnsLookups := deleteProperty ipAddress (pendingDnsLookups s)\<rparr>"

definition performReverseDns_then :: "string \<Rightarrow> string option \<Rightarrow> state \<Rightarrow> state" where
  "performReverseDns_then ipAddress match s =
     (case match of
        None \<Rightarrow> reverseDnsNegative ipAddress s
      | Some host \<Rightarrow>
          if host = [] then reverseDnsNegative ipAddress s
          else s\<lparr>reverseDnsCache :=
                    setProperty ipAddress (Some host) PrimitiveValue (reverseDnsCache s),
                  trafficRecords :=
                    map (\<lambda>r. if address r = ipAddress \<and> url r = [] then r\<lparr>url := host\<rparr>
                              else r) (trafficRecords s),
                  effects := effects s @ [RenderTable],
                  pendingDnsLookups := deleteProperty ipAddress (pendingDnsLookups s)\<rparr>)"

definition performReverseDns_catch :: "string \<Rightarrow> state \<Rightarrow> state" where
  "performReverseDns_catch ipAddress s = reverseDnsNegative ipAddress s"

subsection \<open>The daily ipinfo usage counter\<close>

text \<open>
  \<^verbatim>\<open>parseInt(str, 10)\<close>: leading white space is skipped, one sign is read, then the
  longest run of decimal digits; no digit gives \<^verbatim>\<open>NaN\<close>, here \<open>None\<close>. (The source holds
  the value in a double, which is this integer below \<open>2\<^sup>5\<^sup>3\<close>.)
\<close>

definition parseInt10 :: "string \<Rightarrow> int option" where
  "parseInt10 str =
     (let s = dropWhile isWhiteSpace str;
          negative = (s \<noteq> [] \<and> hd s = CHR ''-'');
          body = (if s \<noteq> [] \<and> (hd s = CHR ''-'' \<or> hd s = CHR ''+'') then tl s else s);
          z = takeWhile isDigit body
      in if z = [] then None
         else Some (if negative then - int (decimalValue z) else int (decimalValue z)))"

text \<open>\<^verbatim>\<open>String(n)\<close> for an integer.\<close>

fun showNat :: "nat \<Rightarrow> string" where
  "showNat n =
     (if n < 10 then [char_of (48 + n)] else showNat (n div 10) @ [char_of (48 + n mod 10)])"

declare showNat.simps [simp del]

definition showInt :: "int \<Rightarrow> string" where
  "showInt n = (if n < 0 then CHR ''-'' # showNat (nat (- n)) else showNat (nat n))"

text \<open>\<^verbatim>\<open>!state.ipInfoUsagePath\<close>: the path is \<^verbatim>\<open>null\<close> or empty.\<close>

definition noUsagePath :: "state \<Rightarrow> bool" where
  "noUsagePath s \<longleftrightarrow> (case ipInfoUsagePath s of None \<Rightarrow> True | Some p \<Rightarrow> p = [])"

definition usagePath :: "state \<Rightarrow> string" where
  "usagePath s = (case ipInfoUsagePath s of None \<Rightarrow> [] | Some p \<Rightarrow> p)"

text \<open>
  The \<^verbatim>\<open>.then\<close> of the read in \<^verbatim>\<open>loadIpInfoUsage\<close>; \<open>content\<close> is \<open>None\<close> when the
  file holds nothing to read (\<^verbatim>\<open>null\<close>).
\<close>

definition loadIpInfoUsage_then :: "env \<Rightarrow> string option \<Rightarrow> state \<Rightarrow> state" where
  "loadIpInfoUsage_then e content s =
     (case content of
        None \<Rightarrow> s\<lparr>ipInfoDailyCount := 0\<rparr>
      | Some text \<Rightarrow>
          if text = [] \<or> js_trim text = [] then s\<lparr>ipInfoDailyCount := 0\<rparr>
          else
            let parts = js_split CHR ''|'' (js_trim text)
            in if length parts = 2 \<and> parts ! 0 = todayStr e
               then s\<lparr>ipInfoDailyCount :=
                        (case parseInt10 (parts ! 1) of None \<Rightarrow> 0 | Some n \<Rightarrow> n)\<rparr>
               else s\<lparr>ipInfoDailyCount := 0\<rparr>)"

datatype readOutcome = ReadResolved "string option" | ReadRejected

definition loadIpInfoUsage :: "env \<Rightarrow> readOutcome \<Rightarrow> state \<Rightarrow> state" where
  "loadIpInfoUsage e outcome s =
     (if noUsagePath s then s
      else
        let s1 = s\<lparr>effects := effects s @ [FileRead (usagePath s)]\<rparr>
        in (case outcome of
              ReadResolved content \<Rightarrow> loadIpInfoUsage_then e content s1
            | ReadRejected \<Rightarrow> s1\<lparr>ipInfoDailyCount := 0\<rparr>))"

definition saveIpInfoUsage :: "env \<Rightarrow> state \<Rightarrow> state" where
  "saveIpInfoUsage e s =
     (if noUsagePath s then s
      else s\<lparr>effects := effects s @
                [FileReplace (usagePath s)
                   (todayStr e @ ''|'' @ showInt (ipInfoDailyCount s))]\<rparr>)"

subsection \<open>ipinfo enrichment\<close>

text \<open>The body of the loop of \<^verbatim>\<open>applyIpInfoResult\<close>, for one record.\<close>

definition applyToRecord :: "string \<Rightarrow> ipInfoResult \<Rightarrow> trafficRecord \<Rightarrow> trafficRecord" where
  "applyToRecord lookupKey result r =
     (if address r = lookupKey \<or> url r = lookupKey
      then
        let r1 = (if url r = [] \<and> hostname result \<noteq> [] then r\<lparr>url := hostname result\<rparr> else r);
            r2 = (if address r1 = [] \<and> ip result \<noteq> [] then r1\<lparr>address := ip result\<rparr> else r1);
            r3 = (if category r2 = [] \<and> org result \<noteq> [] then r2\<lparr>category := org result\<rparr> else r2)
        in if data r3 = [] \<and> timezone result \<noteq> [] then r3\<lparr>data := timezone result\<rparr> else r3
      else r)"

definition applyIpInfoResult :: "string \<Rightarrow> ipInfoResult \<Rightarrow> state \<Rightarrow> state" where
  "applyIpInfoResult lookupKey result s =
     s\<lparr>trafficRecords := map (applyToRecord lookupKey result) (trafficRecords s)\<rparr>"

text \<open>\<^verbatim>\<open>record.address || record.url\<close>, the key a record is looked up under.\<close>

definition lookupKeyOf :: "trafficRecord \<Rightarrow> string" where
  "lookupKeyOf r = (if address r \<noteq> [] then address r else url r)"

text \<open>
  The loop of \<^verbatim>\<open>enrichWithIpInfo\<close> from index \<open>i\<close> on, with the local variables
  \<^verbatim>\<open>delay\<close> and \<^verbatim>\<open>hadCachedResults\<close>; the result holds \<^verbatim>\<open>hadCachedResults\<close> at the
  exit of the loop. \<^verbatim>\<open>continue\<close> goes on with the next index, \<^verbatim>\<open>break\<close> leaves the loop.
\<close>

function enrichWithIpInfo_from :: "nat \<Rightarrow> nat \<Rightarrow> bool \<Rightarrow> state \<Rightarrow> (bool \<times> state) outcome" where
  "enrichWithIpInfo_from i delay hadCachedResults s =
     (if i < length (trafficRecords s)
      then
        let lookupKey = lookupKeyOf (trafficRecords s ! i)
        in if lookupKey \<noteq> [] \<and> category (trafficRecords s ! i) = []
           then (case hasOwnProperty (ipInfoCache s) lookupKey of
                   Inl err \<Rightarrow> Throws err (hadCachedResults, s)
                 | Inr True \<Rightarrow>
                     (case getProperty (ipInfoCache s) lookupKey of
                        Some (Some cached) \<Rightarrow>
                          enrichWithIpInfo_from (Suc i) delay True
                            (applyIpInfoResult lookupKey cached s)
                      | _ \<Rightarrow> enrichWithIpInfo_from (Suc i) delay hadCachedResults s)
                 | Inr False \<Rightarrow>
                     if ipInfoDailyCount s \<ge> ipInfoDailyLimit s
                     then Normal (hadCachedResults, s)
                     else enrichWithIpInfo_from (Suc i) (delay + 100) hadCachedResults
                            (s\<lparr>effects := effects s @ [SetTimeout delay lookupKey i]\<rparr>))
           else enrichWithIpInfo_from (Suc i) delay hadCachedResults s
      else Normal (hadCachedResults, s))"
  by pat_completeness auto
termination
  by (relation "measure (\<lambda>(i, delay, h, s). length (trafficRecords s) - i)")
     (auto simp: applyIpInfoResult_def)

declare enrichWithIpInfo_from.simps [simp del]

definition enrichWithIpInfo :: "state \<Rightarrow> state outcome" where
  "enrichWithIpInfo s =
     (case enrichWithIpInfo_from 0 0 False s of
        Throws err (h, s') \<Rightarrow> Throws err s'
      | Normal (h, s') \<Rightarrow>
          Normal (if h then s'\<lparr>effects := effects s' @ [RenderTable]\<rparr> else s'))"

text \<open>\<^verbatim>\<open>performIpInfoLookup\<close> up to the spawn; a timer runs it.\<close>

definition performIpInfoLookup :: "string \<Rightarrow> nat \<Rightarrow> state \<Rightarrow> state outcome" where
  "performIpInfoLookup lookupKey recordIndex s =
     (case hasOwnProperty (ipInfoCache s) lookupKey of
        Inl err \<Rightarrow> Throws err s
      | Inr True \<Rightarrow>
          (case getProperty (ipInfoCache s) lookupKey of
             Some (Some cached) \<Rightarrow> Normal (applyIpInfoResult lookupKey cached s)
           | _ \<Rightarrow> Normal s)
      | Inr False \<Rightarrow>
          if truthyProperty (pendingIpInfoLookups s) lookupKey then Normal s
          else if ipInfoDailyCount s \<ge> ipInfoDailyLimit s then Normal s
          else Normal (s\<lparr>pendingIpInfoLookups :=
                           setProperty lookupKey True PrimitiveValue (pendingIpInfoLookups s),
                         effects := effects s @ [SpawnIpInfo lookupKey]\<rparr>))"

text \<open>
  What the \<^verbatim>\<open>ipinfo\<close> command printed, as \<^verbatim>\<open>JSON.parse\<close> and the four
  \<^verbatim>\<open>info.field || ""\<close> read it: text that is not JSON, the JSON \<^verbatim>\<open>null\<close> (reading
  \<^verbatim>\<open>info.ip\<close> then throws inside \<^verbatim>\<open>.then\<close>, and the \<^verbatim>\<open>.catch\<close> that follows runs),
  or a value whose four fields are strings, empty when absent.
\<close>

datatype ipInfoOutput = InvalidJson | JsonNull | JsonValue ipInfoResult

definition ipInfoNegative :: "string \<Rightarrow> state \<Rightarrow> state" where
  "ipInfoNegative lookupKey s =
     s\<lparr>ipInfoCache := setProperty lookupKey None NullValue (ipInfoCache s),
       pendingIpInfoLookups := deleteProperty lookupKey (pendingIpInfoLookups s)\<rparr>"

definition performIpInfoLookup_then :: "env \<Rightarrow> string \<Rightarrow> ipInfoOutput \<Rightarrow> state \<Rightarrow> state" where
  "performIpInfoLookup_then e lookupKey output s =
     (case output of
        InvalidJson \<Rightarrow> ipInfoNegative lookupKey s
      | JsonNull \<Rightarrow> ipInfoNegative lookupKey s
      | JsonValue result \<Rightarrow>
          let s1 = s\<lparr>ipInfoCache :=
                       setProperty lookupKey (Some result) ObjectValue (ipInfoCache s)\<rparr>;
              s2 = applyIpInfoResult lookupKey result s1;
              s3 = s2\<lparr>ipInfoDailyCount := ipInfoDailyCount s2 + 1\<rparr>;
              s4 = saveIpInfoUsage e s3;
              s5 = s4\<lparr>pendingIpInfoLookups :=
                        deleteProperty lookupKey (pendingIpInfoLookups s4)\<rparr>
          in s5\<lparr>effects := effects s5 @ [RenderTable]\<rparr>)"

definition performIpInfoLookup_catch :: "string \<Rightarrow> state \<Rightarrow> state" where
  "performIpInfoLookup_catch lookupKey s = ipInfoNegative lookupKey s"

subsection \<open>Sorting\<close>

text \<open>
  \<^verbatim>\<open>a[column]\<close>: a string, a number, a \<^verbatim>\<open>Date\<close>, or \<^verbatim>\<open>undefined\<close> for a name that a
  record has no property for. (No field is ever \<^verbatim>\<open>null\<close>; the value is there because the
  comparator tests for it.)
\<close>

datatype jsval = StringValue string | NumberValue int | DateValue int | UndefinedValue | NullJs

definition getField :: "column \<Rightarrow> trafficRecord \<Rightarrow> jsval" where
  "getField c r =
     (case c of
        Url \<Rightarrow> StringValue (url r)
      | Address \<Rightarrow> StringValue (address r)
      | FirstTimestamp \<Rightarrow> DateValue (firstTimestamp r)
      | LastTimestamp \<Rightarrow> DateValue (lastTimestamp r)
      | Frequency \<Rightarrow> NumberValue (frequency r)
      | Category \<Rightarrow> StringValue (category r)
      | Data \<Rightarrow> StringValue (data r)
      | Type \<Rightarrow> StringValue (type r)
      | NoSuchProperty \<Rightarrow> UndefinedValue)"

definition isEmptyValue :: "jsval \<Rightarrow> bool" where
  "isEmptyValue v \<longleftrightarrow> v = StringValue [] \<or> v = NullJs \<or> v = UndefinedValue"

text \<open>\<^verbatim>\<open>v instanceof Date ? v.getTime() : 0\<close>.\<close>

definition timeOf :: "jsval \<Rightarrow> int" where
  "timeOf v = (case v of DateValue t \<Rightarrow> t | _ \<Rightarrow> 0)"

text \<open>
  \<^verbatim>\<open>Number(v)\<close> and \<^verbatim>\<open>String(v)\<close>, on the values that reach them: the comparator applies
  the first to \<^verbatim>\<open>frequency\<close>, a number, and the second to the fields that hold strings.
\<close>

definition numberOf :: "jsval \<Rightarrow> int" where
  "numberOf v = (case v of NumberValue n \<Rightarrow> n | _ \<Rightarrow> 0)"

definition stringOf :: "jsval \<Rightarrow> string" where
  "stringOf v = (case v of StringValue str \<Rightarrow> str | _ \<Rightarrow> [])"

text \<open>The comparator that \<^verbatim>\<open>sortRecords\<close> passes to \<^verbatim>\<open>records.sort\<close>.\<close>

definition compareRecords :: "column \<Rightarrow> string \<Rightarrow> trafficRecord \<Rightarrow> trafficRecord \<Rightarrow> int" where
  "compareRecords c direction a b =
     (let aVal = getField c a; bVal = getField c b;
          aEmpty = isEmptyValue aVal; bEmpty = isEmptyValue bVal
      in if aEmpty \<and> bEmpty then 0
         else if aEmpty then 1
         else if bEmpty then - 1
         else
           let result =
                 (if c = FirstTimestamp \<or> c = LastTimestamp then timeOf aVal - timeOf bVal
                  else if c = Frequency then numberOf aVal - numberOf bVal
                  else
                    let aStr = toLowerCase (stringOf aVal); bStr = toLowerCase (stringOf bVal)
                    in if js_less aStr bStr then - 1 else if js_less bStr aStr then 1 else 0)
           in if direction = ''asc'' then result else - result)"

text \<open>
  \<^verbatim>\<open>Array.prototype.sort\<close> with a comparator. For a consistent comparator the result is
  the permutation of the array that the comparator orders, and the sort is stable: elements
  that compare equal keep their order. Stable insertion computes that permutation.
\<close>

fun insertSorted :: "('a \<Rightarrow> 'a \<Rightarrow> int) \<Rightarrow> 'a \<Rightarrow> 'a list \<Rightarrow> 'a list" where
  "insertSorted cmp x [] = [x]"
| "insertSorted cmp x (y # ys) =
     (if cmp x y \<le> 0 then x # y # ys else y # insertSorted cmp x ys)"

definition arraySort :: "('a \<Rightarrow> 'a \<Rightarrow> int) \<Rightarrow> 'a list \<Rightarrow> 'a list" where
  "arraySort cmp xs = foldr (insertSorted cmp) xs []"

definition sortRecords :: "state \<Rightarrow> trafficRecord list \<Rightarrow> trafficRecord list" where
  "sortRecords s records = arraySort (compareRecords (sortColumn s) (sortDirection s)) records"

subsection \<open>Fetching: fetchAndRenderData\<close>

text \<open>
  The value a rejected \<^verbatim>\<open>cockpit.spawn\<close> hands to \<^verbatim>\<open>.catch\<close>: its \<^verbatim>\<open>message\<close> and
  \<^verbatim>\<open>problem\<close> properties, empty when absent, and \<^verbatim>\<open>String(error)\<close>.
\<close>

record jsError =
  message :: string
  problem :: string
  asString :: string

definition errorMessage :: "jsError \<Rightarrow> string" where
  "errorMessage err =
     (if message err \<noteq> [] then message err
      else if problem err \<noteq> [] then problem err
      else asString err)"

definition thrownError :: "env \<Rightarrow> error \<Rightarrow> jsError" where
  "thrownError e err =
     \<lparr>message = typeErrorMessage e, problem = [],
      asString = ''TypeError: '' @ typeErrorMessage e\<rparr>"

text \<open>The \<^verbatim>\<open>.then\<close> handler of the fetch; an exception leaves it at the point of the throw.\<close>

definition fetchAndRenderData_then :: "env \<Rightarrow> string \<Rightarrow> state \<Rightarrow> state outcome" where
  "fetchAndRenderData_then e output s =
     (let rawLogs = parseShellOutput e output
      in case processLogs rawLogs of
           Inl err \<Rightarrow> Throws err s
         | Inr records \<Rightarrow>
             let s1 = s\<lparr>trafficRecords := records,
                        effects := effects s @ [RenderTable, UpdateStatusBar]\<rparr>
             in (case enrichWithReverseDns s1 of
                   Throws err s2 \<Rightarrow> Throws err s2
                 | Normal s2 \<Rightarrow>
                     (case enrichWithIpInfo s2 of
                        Throws err s3 \<Rightarrow> Throws err s3
                      | Normal s3 \<Rightarrow>
                          Normal (s3\<lparr>effects := effects s3 @ [HideLoading],
                                      isFetching := False\<rparr>))))"

text \<open>The \<^verbatim>\<open>.catch\<close> handler of the fetch.\<close>

definition fetchAndRenderData_catch :: "jsError \<Rightarrow> state \<Rightarrow> state" where
  "fetchAndRenderData_catch err s =
     s\<lparr>effects := effects s @
          [ShowError (''Failed to fetch traffic data: '' @ errorMessage err), HideLoading],
       isFetching := False\<rparr>"

text \<open>
  One call of \<^verbatim>\<open>fetchAndRenderData\<close> together with the settlement of its spawn. The
  handlers above are the same functions on whatever state they find when they run.
\<close>

datatype spawnOutcome = Resolved string | Rejected jsError

definition fetchAndRenderData_start :: "state \<Rightarrow> state" where
  "fetchAndRenderData_start s =
     s\<lparr>isFetching := True,
       effects := effects s @ (if trafficRecords s = [] then [ShowLoading] else [])
                  @ [HideError, SpawnFetchLogs (scriptPath s) (timeRange s)]\<rparr>"

definition fetchAndRenderData :: "env \<Rightarrow> spawnOutcome \<Rightarrow> state \<Rightarrow> state" where
  "fetchAndRenderData e outcome s =
     (if isFetching s then s
      else
        let s1 = fetchAndRenderData_start s
        in (case outcome of
              Rejected err \<Rightarrow> fetchAndRenderData_catch err s1
            | Resolved output \<Rightarrow>
                (case fetchAndRenderData_then e output s1 of
                   Normal s2 \<Rightarrow> s2
                 | Throws err s2 \<Rightarrow> fetchAndRenderData_catch (thrownError e err) s2)))"

subsection \<open>A concrete browser\<close>

text \<open>
  An environment for the worked examples: the year is 2024, the day is 2024-01-02, and
  \<open>dateParse\<close> knows the three time stamps of the examples (in UTC).
\<close>

definition demoEnv :: env where
  "demoEnv =
     \<lparr>dateParse =
        (\<lambda>str. if str = ''Feb 14 15:54:10 2024'' then Some 1707926050000
               else if str = ''Feb 14 15:55:01 2024'' then Some 1707926101000
               else if str = ''Feb 14 15:55:50 2024'' then Some 1707926150000
               else None),
      currentYear = ''2024'', todayStr = ''2024-01-02'',
      typeErrorMessage = ''hasOwnProperty is not a function''\<rparr>"

subsection \<open>The state at page load, and the vocabulary of the properties\<close>

text \<open>The \<^verbatim>\<open>state\<close> object as the script creates it.\<close>

definition initialState :: state where
  "initialState =
     \<lparr>timeRange = ''24 hours ago'', trafficRecords = [], sortColumn = LastTimestamp,
      sortDirection = ''desc'', reverseDnsCache = emptyObject,
      pendingDnsLookups = emptyObject, scriptPath = None, isFetching = False,
      ipInfoCache = emptyObject, pendingIpInfoLookups = emptyObject,
      ipInfoDailyLimit = 1000, ipInfoDailyCount = 0, ipInfoUsagePath = None,
      effects = []\<rparr>"

text \<open>The key a log entry is aggregated under, and how often a key occurs in a batch.\<close>

definition logKey :: "logEntry \<Rightarrow> string" where
  "logKey ev = (if log_url ev \<noteq> [] then log_url ev else log_address ev)"

definition keyCount :: "string \<Rightarrow> logEntry list \<Rightarrow> nat" where
  "keyCount k rawLogs = length (filter (\<lambda>ev. logKey ev = k) rawLogs)"

text \<open>
  The invariant of the first loop of \<^verbatim>\<open>processLogs\<close> on ordinary keys: the map is an
  ordinary dictionary, every record is stored under its own key, and has been counted.
\<close>

definition wellKeyed :: "trafficRecord jsobj \<Rightarrow> bool" where
  "wellKeyed m \<longleftrightarrow>
     \<not> protoNull m \<and> \<not> hasOwn m ''hasOwnProperty'' \<and> \<not> hasOwn m ''__proto__''
     \<and> distinct (map fst (own m))
     \<and> (\<forall>p \<in> set (own m). keyOf (snd p) = fst p \<and> fst p \<noteq> [] \<and> 1 \<le> frequency (snd p))"

definition freqOf :: "trafficRecord jsobj \<Rightarrow> string \<Rightarrow> int" where
  "freqOf m k = (case map_of (own m) k of None \<Rightarrow> 0 | Some r \<Rightarrow> frequency r)"

definition orderedMap :: "trafficRecord jsobj \<Rightarrow> bool" where
  "orderedMap m \<longleftrightarrow> (\<forall>p \<in> set (own m). firstTimestamp (snd p) \<le> lastTimestamp (snd p))"

text \<open>A record has no value to sort by in column \<open>c\<close>.\<close>

definition emptyIn :: "column \<Rightarrow> trafficRecord \<Rightarrow> bool" where
  "emptyIn c r \<longleftrightarrow> isEmptyValue (getField c r)"

text \<open>
  Enrichment. \<open>fillsOnly r r'\<close>: every field among url, address, category and data that is
  non-empty in \<open>r\<close> has the same value in \<open>r'\<close>. \<open>enrichedFrom\<close> lifts this to record sets,
  record by record.
\<close>

definition fillsOnly :: "trafficRecord \<Rightarrow> trafficRecord \<Rightarrow> bool" where
  "fillsOnly r r' \<longleftrightarrow>
     (url r \<noteq> [] \<longrightarrow> url r' = url r) \<and> (address r \<noteq> [] \<longrightarrow> address r' = address r)
     \<and> (category r \<noteq> [] \<longrightarrow> category r' = category r)
     \<and> (data r \<noteq> [] \<longrightarrow> data r' = data r)"

definition enrichedFrom :: "trafficRecord list \<Rightarrow> trafficRecord list \<Rightarrow> bool" where
  "enrichedFrom rs rs' \<longleftrightarrow> list_all2 fillsOnly rs rs'"

text \<open>The state an operation leaves behind, whether it returned or threw.\<close>

definition stateOf :: "'a outcome \<Rightarrow> 'a" where
  "stateOf out = (case out of Normal a \<Rightarrow> a | Throws err a \<Rightarrow> a)"

text \<open>
  The ways enrichment runs: the two passes that the fetch starts, the timer that calls
  \<^verbatim>\<open>performIpInfoLookup\<close>, and the settlement of a lookup, with what the command delivered.
\<close>

datatype enrichment =
    ReverseDnsPass
  | HostAnswered string "string option"
  | HostFailed string
  | IpInfoPass
  | TimerFired string nat
  | IpInfoAnswered string ipInfoOutput
  | IpInfoFailed string

fun enrich :: "env \<Rightarrow> state \<Rightarrow> enrichment \<Rightarrow> state" where
  "enrich e s ReverseDnsPass = stateOf (enrichWithReverseDns s)"
| "enrich e s (HostAnswered ipAddress match) = performReverseDns_then ipAddress match s"
| "enrich e s (HostFailed ipAddress) = performReverseDns_catch ipAddress s"
| "enrich e s IpInfoPass = stateOf (enrichWithIpInfo s)"
| "enrich e s (TimerFired lookupKey recordIndex) =
     stateOf (performIpInfoLookup lookupKey recordIndex s)"
| "enrich e s (IpInfoAnswered lookupKey out) = performIpInfoLookup_then e lookupKey out s"
| "enrich e s (IpInfoFailed lookupKey) = performIpInfoLookup_catch lookupKey s"

text \<open>The test \<^verbatim>\<open>if (lookupKey && !record.category)\<close> of the ipinfo loop, at index \<open>i\<close>.\<close>

definition ipInfoCandidate :: "state \<Rightarrow> nat \<Rightarrow> bool" where
  "ipInfoCandidate s i \<longleftrightarrow>
     i < length (trafficRecords s) \<and> lookupKeyOf (trafficRecords s ! i) \<noteq> []
     \<and> category (trafficRecords s ! i) = []"

text \<open>
  A cache object on which \<^verbatim>\<open>hasOwnProperty\<close> can be called; the truthy hostname cached for
  an address; and what a reverse DNS pass does to one record, given the cache.
\<close>

definition ordinaryObject :: "'v jsobj \<Rightarrow> bool" where
  "ordinaryObject obj \<longleftrightarrow> \<not> hasOwn obj ''hasOwnProperty'' \<and> \<not> protoNull obj"

definition cachedHost :: "string option jsobj \<Rightarrow> string \<Rightarrow> string option" where
  "cachedHost cache ipAddress =
     (case getProperty cache ipAddress of
        Some (Some cached) \<Rightarrow> if cached \<noteq> [] then Some cached else None
      | _ \<Rightarrow> None)"

definition fillFromDnsCache :: "string option jsobj \<Rightarrow> trafficRecord \<Rightarrow> trafficRecord" where
  "fillFromDnsCache cache r =
     (if address r \<noteq> [] \<and> url r = []
      then (case cachedHost cache (address r) of
              Some cached \<Rightarrow> r\<lparr>url := cached\<rparr>
            | None \<Rightarrow> r)
      else r)"

text \<open>
  States for the worked examples. \<open>scenarioD\<close> is Scenario D of the specification: one
  record with an address and no url, whose address both caches know. \<open>quotaReached\<close>
  holds a record whose key is not cached before a record whose key is, with the daily count
  at the limit. \<open>cachedBehindGate\<close> is such a state after a batch with a DNS answer and a
  connection: the record of the name \<open>example.org\<close>, not cached, stands before the record
  of the cached address.
\<close>

definition cdnResult :: ipInfoResult where
  "cdnResult = \<lparr>ip = ''160.79.104.10'', hostname = ''edge.example.net'',
                org = ''AS64500 Example Networks'', timezone = ''America/Chicago''\<rparr>"

definition byAddress :: "string \<Rightarrow> trafficRecord" where
  "byAddress a = \<lparr>url = [], address = a, firstTimestamp = 1707926150000,
                  lastTimestamp = 1707926150000, frequency = 1, category = [], data = [],
                  type = ''HTTPS''\<rparr>"

definition scenarioD :: state where
  "scenarioD =
     initialState
       \<lparr>trafficRecords := [byAddress ''160.79.104.10''],
        reverseDnsCache :=
          setProperty ''160.79.104.10'' (Some ''cdn.example.com'') PrimitiveValue emptyObject,
        ipInfoCache :=
          setProperty ''160.79.104.10'' (Some cdnResult) ObjectValue emptyObject\<rparr>"

definition quotaReached :: state where
  "quotaReached =
     scenarioD\<lparr>trafficRecords := [byAddress ''9.9.9.9'', byAddress ''160.79.104.10''],
                ipInfoDailyCount := 1000\<rparr>"

definition byName :: "string \<Rightarrow> trafficRecord" where
  "byName u = \<lparr>url = u, address = [], firstTimestamp = 1707926140000,
               lastTimestamp = 1707926140000, frequency = 1, category = [], data = [],
               type = ''DNS''\<rparr>"

definition cachedBehindGate :: state where
  "cachedBehindGate =
     scenarioD\<lparr>trafficRecords := [byName ''example.org'', byAddress ''160.79.104.10''],
                ipInfoDailyCount := 1000\<rparr>"

section \<open>The parser\<close>

lemmas parser_defs =
  parseShellOutput_def parseLine_def parseParts_def parseTimestamp_def js_trim_def
  isWhiteSpace_def demoEnv_def Let_def








lemma parseParts_first_three:
  "parseParts e (k # t # d # extra) = parseParts e [k, t, d]"
  by (simp add: parseParts_def Let_def)

text \<open>
  Claim C10: the parser reads fields 0, 1 and 2 of the trimmed line and nothing else. A
  line with the three fields \<open>k\<close>, \<open>t\<close>, \<open>d\<close> and a line with the same three fields followed
  by any others are parsed into the same entries, whatever the kind \<open>k\<close>; for \<open>k\<close> the
  kind DNS the three-field line is accepted and gives the DNS entry for domain \<open>d\<close>.
\<close>

theorem parser_ignores_fields_after_third:
  assumes "js_split CHR ''|'' (js_trim line3) = [k, t, d]"
    and "js_split CHR ''|'' (js_trim line4) = k # t # d # extra"
  shows "parseLine e line4 = parseLine e line3
         \<and> (k = ''DNS'' \<longrightarrow>
              parseLine e line3 =
                [\<lparr>log_type = ''DNS'', log_timestamp = parseTimestamp e t,
                  log_url = d, log_address = []\<rparr>])"
proof -
  have ne3: "js_trim line3 \<noteq> []" using assms(1) by auto
  have ne4: "js_trim line4 \<noteq> []" using assms(2) by auto
  have l3: "parseLine e line3 = parseParts e [k, t, d]"
    using ne3 assms(1) by (simp add: parseLine_def)
  have l4: "parseLine e line4 = parseParts e (k # t # d # extra)"
    using ne4 assms(2) by (simp add: parseLine_def)
  have same: "parseLine e line4 = parseLine e line3"
    unfolding l3 l4 by (rule parseParts_first_three)
  have dns: "k = ''DNS'' \<longrightarrow>
               parseLine e line3 =
                 [\<lparr>log_type = ''DNS'', log_timestamp = parseTimestamp e t,
                   log_url = d, log_address = []\<rparr>]"
    using l3 by (simp add: parseParts_def Let_def)
  from same dns show ?thesis by simp
qed

theorem parser_ignores_fields_after_third_witness:
  "parseLine demoEnv ''DNS|Feb 14 15:54:10|github.com|A''
     = parseLine demoEnv ''DNS|Feb 14 15:54:10|github.com''
   \<and> parseLine demoEnv ''DNS|Feb 14 15:54:10|github.com'' =
       [\<lparr>log_type = ''DNS'', log_timestamp = 1707926050000,
         log_url = ''github.com'', log_address = []\<rparr>]"
proof -
  have s3: "js_split CHR ''|'' (js_trim ''DNS|Feb 14 15:54:10|github.com'')
            = [''DNS'', ''Feb 14 15:54:10'', ''github.com'']"
    by (simp add: js_trim_def isWhiteSpace_def)
  have s4: "js_split CHR ''|'' (js_trim ''DNS|Feb 14 15:54:10|github.com|A'')
            = ''DNS'' # ''Feb 14 15:54:10'' # ''github.com'' # [''A'']"
    by (simp add: js_trim_def isWhiteSpace_def)
  have ts: "parseTimestamp demoEnv ''Feb 14 15:54:10'' = 1707926050000"
    by (simp add: parser_defs)
  show ?thesis
    using parser_ignores_fields_after_third [OF s3 s4, of demoEnv] ts by simp
qed

section \<open>Aggregation\<close>

subsection \<open>Merging one more entry\<close>

lemma updateExistingRecord_first:
  "firstTimestamp (updateExistingRecord x entry) = min (firstTimestamp x) (firstTimestamp entry)"
  by (simp add: updateExistingRecord_def Let_def min_def)

lemma updateExistingRecord_last:
  "lastTimestamp (updateExistingRecord x entry) = max (lastTimestamp x) (lastTimestamp entry)"
  by (simp add: updateExistingRecord_def Let_def max_def)

lemma updateExistingRecord_frequency:
  "frequency (updateExistingRecord x entry) = frequency x + 1"
  by (simp add: updateExistingRecord_def Let_def)

lemma updateExistingRecord_ordered:
  "firstTimestamp x \<le> lastTimestamp x \<Longrightarrow>
   firstTimestamp (updateExistingRecord x entry) \<le> lastTimestamp (updateExistingRecord x entry)"
  by (simp add: updateExistingRecord_first updateExistingRecord_last min_def max_def)

lemma foldl_update_ordered:
  "firstTimestamp r \<le> lastTimestamp r \<Longrightarrow>
   firstTimestamp (foldl updateExistingRecord r entries)
     \<le> lastTimestamp (foldl updateExistingRecord r entries)"
  by (induction entries arbitrary: r) (simp_all add: updateExistingRecord_ordered)

lemma keyOf_lambdaOf: "keyOf (lambdaOf ev) = logKey ev"
  by (simp add: keyOf_def lambdaOf_def logKey_def)

lemma keyOf_updateExistingRecord:
  "keyOf r = k \<Longrightarrow> keyOf lam = k \<Longrightarrow> k \<noteq> [] \<Longrightarrow> keyOf (updateExistingRecord r lam) = k"
  by (auto simp: keyOf_def updateExistingRecord_def Let_def split: if_splits)

subsection \<open>The record map\<close>

lemma set_update_subset: "set (AList.update k v al) \<subseteq> insert (k, v) (set al)"
  by (induction al) auto

lemma mset_forInOrder: "mset (forInOrder ps) = mset ps"
  by (simp add: forInOrder_def)

lemma set_forInOrder: "set (forInOrder ps) = set ps"
  using mset_forInOrder [of ps] by (metis set_mset_mset)

lemma distinct_fst_forInOrder:
  assumes "distinct (map fst ps)"
  shows "distinct (map fst (forInOrder ps))"
proof -
  have "mset (map fst (forInOrder ps)) = mset (map fst ps)"
    using mset_forInOrder [of ps] by (metis mset_map)
  then show ?thesis
    using assms by (metis distinct_count_atmost_1 count_mset_0_iff set_mset_mset)
qed

lemma orderedMap_update:
  "orderedMap m \<Longrightarrow> firstTimestamp v \<le> lastTimestamp v \<Longrightarrow>
   orderedMap (m\<lparr>own := AList.update k v (own m)\<rparr>)"
  using set_update_subset [of k v "own m"] by (auto simp: orderedMap_def)

lemma orderedMap_setProperty:
  "orderedMap m \<Longrightarrow> firstTimestamp v \<le> lastTimestamp v \<Longrightarrow>
   orderedMap (setProperty k v kind m)"
  using set_update_subset [of k v "own m"] by (auto simp: orderedMap_def setProperty_def)

text \<open>Every record in the map has its first time stamp before its last, all through the loop.\<close>

lemma processLogs_loop_ordered:
  "orderedMap m \<Longrightarrow> processLogs_loop rawLogs m = Inr m' \<Longrightarrow> orderedMap m'"
proof (induction rawLogs arbitrary: m)
  case Nil
  then show ?case by simp
next
  case (Cons ev rawLogs)
  let ?k = "keyOf (lambdaOf ev)"
  have lam: "firstTimestamp (lambdaOf ev) \<le> lastTimestamp (lambdaOf ev)"
    by (simp add: lambdaOf_def)
  show ?case
  proof (cases "?k = []")
    case True
    with Cons show ?thesis by simp
  next
    case False
    note key = this
    show ?thesis
    proof (cases "hasOwnProperty m ?k")
      case (Inl err)
      with Cons.prems key show ?thesis by simp
    next
      case (Inr present)
      show ?thesis
      proof (cases present)
        case False
        with Inr key Cons.prems
        have "processLogs_loop rawLogs (setProperty ?k (lambdaOf ev) ObjectValue m) = Inr m'"
          by (simp add: Let_def)
        moreover have "orderedMap (setProperty ?k (lambdaOf ev) ObjectValue m)"
          using Cons.prems(1) lam by (rule orderedMap_setProperty)
        ultimately show ?thesis by (rule Cons.IH [rotated])
      next
        case True
        show ?thesis
        proof (cases "getProperty m ?k")
          case None
          with True Inr key Cons.prems have "processLogs_loop rawLogs m = Inr m'"
            by (simp add: Let_def)
          with Cons.prems(1) show ?thesis by (rule Cons.IH)
        next
          case (Some existing)
          let ?m1 = "m\<lparr>own := AList.update ?k (updateExistingRecord existing (lambdaOf ev)) (own m)\<rparr>"
          from Some have "(?k, existing) \<in> set (own m)"
            by (simp add: getProperty_def map_of_SomeD)
          with Cons.prems(1) have "firstTimestamp existing \<le> lastTimestamp existing"
            by (auto simp: orderedMap_def)
          then have "orderedMap ?m1"
            using Cons.prems(1) by (simp add: orderedMap_update updateExistingRecord_ordered)
          moreover have "processLogs_loop rawLogs ?m1 = Inr m'"
            using Some True Inr key Cons.prems by (simp add: Let_def)
          ultimately show ?thesis by (rule Cons.IH)
        qed
      qed
    qed
  qed
qed

lemma processLogs_ordered:
  assumes "processLogs rawLogs = Inr records" and "r \<in> set records"
  shows "firstTimestamp r \<le> lastTimestamp r"
proof -
  from assms(1) obtain m where loop: "processLogs_loop rawLogs emptyObject = Inr m"
    and recs: "recordsOf m = Inr records"
    by (auto simp: processLogs_def split: sum.splits)
  have "orderedMap emptyObject" by (simp add: orderedMap_def emptyObject_def)
  then have "orderedMap m" using loop by (rule processLogs_loop_ordered)
  moreover from recs have "records = map snd (forInOrder (own m))"
    by (auto simp: recordsOf_def split: if_splits)
  ultimately show ?thesis using assms(2) by (auto simp: orderedMap_def set_forInOrder)
qed

text \<open>
  Claim C2: a record whose first time stamp is not after its last keeps that order after
  each entry merged into it (after every prefix of any sequence of entries); one more
  merge never moves the first time stamp later nor the last one earlier; and every record
  that \<^verbatim>\<open>processLogs\<close> returns is in that order.
\<close>

theorem merge_keeps_first_before_last:
  "(firstTimestamp r \<le> lastTimestamp r \<longrightarrow>
      (\<forall>n. firstTimestamp (foldl updateExistingRecord r (take n entries))
            \<le> lastTimestamp (foldl updateExistingRecord r (take n entries))))
   \<and> firstTimestamp (updateExistingRecord x entry) \<le> firstTimestamp x
   \<and> lastTimestamp x \<le> lastTimestamp (updateExistingRecord x entry)
   \<and> (processLogs rawLogs = Inr records \<longrightarrow>
        (\<forall>merged \<in> set records. firstTimestamp merged \<le> lastTimestamp merged))"
proof (intro conjI impI allI ballI)
  fix n
  assume "firstTimestamp r \<le> lastTimestamp r"
  then show "firstTimestamp (foldl updateExistingRecord r (take n entries))
             \<le> lastTimestamp (foldl updateExistingRecord r (take n entries))"
    by (rule foldl_update_ordered)
next
  show "firstTimestamp (updateExistingRecord x entry) \<le> firstTimestamp x"
    by (simp add: updateExistingRecord_first)
next
  show "lastTimestamp x \<le> lastTimestamp (updateExistingRecord x entry)"
    by (simp add: updateExistingRecord_last)
next
  fix merged
  assume "processLogs rawLogs = Inr records" "merged \<in> set records"
  then show "firstTimestamp merged \<le> lastTimestamp merged"
    by (rule processLogs_ordered)
qed

theorem merge_keeps_first_before_last_witness:
  "processLogs
     [\<lparr>log_type = ''DNS'', log_timestamp = 1707926101000, log_url = ''github.com'',
       log_address = []\<rparr>,
      \<lparr>log_type = ''DNS'', log_timestamp = 1707926050000, log_url = ''github.com'',
       log_address = []\<rparr>]
   = Inr [\<lparr>url = ''github.com'', address = [], firstTimestamp = 1707926050000,
           lastTimestamp = 1707926101000, frequency = 2, category = [], data = [],
           type = ''DNS''\<rparr>]
   \<and> firstTimestamp
        (foldl updateExistingRecord
           (lambdaOf \<lparr>log_type = ''DNS'', log_timestamp = 1707926101000,
                     log_url = ''github.com'', log_address = []\<rparr>)
           (take 1 [lambdaOf \<lparr>log_type = ''DNS'', log_timestamp = 1707926050000,
                             log_url = ''github.com'', log_address = []\<rparr>]))
      \<le> lastTimestamp
        (foldl updateExistingRecord
           (lambdaOf \<lparr>log_type = ''DNS'', log_timestamp = 1707926101000,
                     log_url = ''github.com'', log_address = []\<rparr>)
           (take 1 [lambdaOf \<lparr>log_type = ''DNS'', log_timestamp = 1707926050000,
                             log_url = ''github.com'', log_address = []\<rparr>]))"
proof -
  let ?late = "\<lparr>log_type = ''DNS'', log_timestamp = 1707926101000, log_url = ''github.com'',
                log_address = []\<rparr>"
  let ?early = "\<lparr>log_type = ''DNS'', log_timestamp = 1707926050000, log_url = ''github.com'',
                 log_address = []\<rparr>"
  have run: "processLogs [?late, ?early]
             = Inr [\<lparr>url = ''github.com'', address = [], firstTimestamp = 1707926050000,
                     lastTimestamp = 1707926101000, frequency = 2, category = [], data = [],
                     type = ''DNS''\<rparr>]"
    by (simp add: processLogs_def recordsOf_def emptyObject_def hasOwnProperty_def hasOwn_def
        getProperty_def setProperty_def lambdaOf_def keyOf_def updateExistingRecord_def
        forInOrder_def isArrayIndex_def isDigit_def Let_def)
  have start: "firstTimestamp (lambdaOf ?late) \<le> lastTimestamp (lambdaOf ?late)"
    by (simp add: lambdaOf_def)
  show ?thesis
    using merge_keeps_first_before_last
            [of "lambdaOf ?late" "[lambdaOf ?early]" "lambdaOf ?late" "lambdaOf ?early"
                "[?late, ?early]"
                "[\<lparr>url = ''github.com'', address = [], firstTimestamp = 1707926050000,
                   lastTimestamp = 1707926101000, frequency = 2, category = [], data = [],
                   type = ''DNS''\<rparr>]"]
          run start
    by simp
qed

subsection \<open>One record per key, counted\<close>

lemma wellKeyed_update:
  assumes "wellKeyed m" "keyOf v = k" "k \<noteq> []" "1 \<le> frequency v"
    and "k \<noteq> ''hasOwnProperty''" "k \<noteq> ''__proto__''"
  shows "wellKeyed (m\<lparr>own := AList.update k v (own m)\<rparr>)"
proof -
  have "\<forall>p \<in> set (AList.update k v (own m)).
          keyOf (snd p) = fst p \<and> fst p \<noteq> [] \<and> 1 \<le> frequency (snd p)"
    using set_update_subset [of k v "own m"] assms by (auto simp: wellKeyed_def)
  moreover have "distinct (map fst (AList.update k v (own m)))"
    using assms(1) by (simp add: wellKeyed_def distinct_update)
  moreover have "\<not> hasOwn (m\<lparr>own := AList.update k v (own m)\<rparr>) ''hasOwnProperty''"
    "\<not> hasOwn (m\<lparr>own := AList.update k v (own m)\<rparr>) ''__proto__''"
    using assms(1,5,6) by (simp_all add: wellKeyed_def hasOwn_def update_conv')
  ultimately show ?thesis using assms(1) by (simp add: wellKeyed_def)
qed

lemma freqOf_update:
  "freqOf (m\<lparr>own := AList.update k v (own m)\<rparr>) k' = (if k' = k then frequency v else freqOf m k')"
  by (simp add: freqOf_def update_conv')

text \<open>One iteration of the first loop, for an entry with an ordinary key.\<close>

lemma processLogs_step:
  assumes wk: "wellKeyed m" and key: "logKey ev \<noteq> []"
    and ok: "logKey ev \<noteq> ''__proto__''" "logKey ev \<noteq> ''hasOwnProperty''"
  shows "\<exists>m1. processLogs_loop (ev # rawLogs) m = processLogs_loop rawLogs m1 \<and> wellKeyed m1
              \<and> (\<forall>k. freqOf m1 k = freqOf m k + (if k = logKey ev then 1 else 0))"
proof (cases "map_of (own m) (logKey ev)")
  case None
  let ?m1 = "m\<lparr>own := AList.update (logKey ev) (lambdaOf ev) (own m)\<rparr>"
  have h: "hasOwnProperty m (logKey ev) = Inr False"
    using wk None by (simp add: hasOwnProperty_def wellKeyed_def hasOwn_def)
  have sp: "setProperty (logKey ev) (lambdaOf ev) ObjectValue m = ?m1"
    using ok by (simp add: setProperty_def)
  have "processLogs_loop (ev # rawLogs) m = processLogs_loop rawLogs ?m1"
    using key h sp by (simp add: Let_def keyOf_lambdaOf)
  moreover have "wellKeyed ?m1"
    using wk keyOf_lambdaOf key _ ok(2,1) by (rule wellKeyed_update) (simp add: lambdaOf_def)
  moreover have "\<forall>k. freqOf ?m1 k = freqOf m k + (if k = logKey ev then 1 else 0)"
    using None by (simp add: freqOf_update) (simp add: freqOf_def lambdaOf_def)
  ultimately show ?thesis by blast
next
  case (Some existing)
  let ?v = "updateExistingRecord existing (lambdaOf ev)"
  let ?m1 = "m\<lparr>own := AList.update (logKey ev) ?v (own m)\<rparr>"
  have mem: "(logKey ev, existing) \<in> set (own m)"
    using Some by (rule map_of_SomeD)
  then have ex: "keyOf existing = logKey ev" "1 \<le> frequency existing"
    using wk by (auto simp: wellKeyed_def)
  have h: "hasOwnProperty m (logKey ev) = Inr True"
    using wk Some by (simp add: hasOwnProperty_def wellKeyed_def hasOwn_def)
  have "processLogs_loop (ev # rawLogs) m = processLogs_loop rawLogs ?m1"
    using key h Some by (simp add: Let_def keyOf_lambdaOf getProperty_def)
  moreover have "wellKeyed ?m1"
  proof (rule wellKeyed_update [OF wk _ key _ ok(2,1)])
    show "keyOf ?v = logKey ev"
      using ex(1) keyOf_lambdaOf key by (rule keyOf_updateExistingRecord)
    show "1 \<le> frequency ?v"
      using ex(2) by (simp add: updateExistingRecord_frequency)
  qed
  moreover have "\<forall>k. freqOf ?m1 k = freqOf m k + (if k = logKey ev then 1 else 0)"
    using Some by (simp add: freqOf_update updateExistingRecord_frequency) (simp add: freqOf_def)
  ultimately show ?thesis by blast
qed

text \<open>An entry with the key \<^verbatim>\<open>__proto__\<close> goes through the prototype setter: the map is unchanged.\<close>

lemma processLogs_step_proto:
  assumes wk: "wellKeyed m" and key: "logKey ev = ''__proto__''"
  shows "processLogs_loop (ev # rawLogs) m = processLogs_loop rawLogs m"
proof -
  have h: "hasOwnProperty m ''__proto__'' = Inr False"
    using wk by (simp add: hasOwnProperty_def wellKeyed_def)
  have sp: "setProperty ''__proto__'' (lambdaOf ev) ObjectValue m = m"
    using wk by (simp add: setProperty_def wellKeyed_def)
  show ?thesis using key h sp by (simp add: Let_def keyOf_lambdaOf)
qed

text \<open>
  An entry with the key \<^verbatim>\<open>hasOwnProperty\<close> is stored as an own property of that name.
\<close>

lemma processLogs_step_shadow:
  assumes wk: "wellKeyed m" and key: "logKey ev = ''hasOwnProperty''"
  shows "\<exists>m1. processLogs_loop (ev # rawLogs) m = processLogs_loop rawLogs m1
              \<and> hasOwn m1 ''hasOwnProperty''"
proof -
  let ?m1 = "m\<lparr>own := AList.update ''hasOwnProperty'' (lambdaOf ev) (own m)\<rparr>"
  have h: "hasOwnProperty m ''hasOwnProperty'' = Inr False"
    using wk by (simp add: hasOwnProperty_def wellKeyed_def)
  have sp: "setProperty ''hasOwnProperty'' (lambdaOf ev) ObjectValue m = ?m1"
    by (simp add: setProperty_def)
  have "processLogs_loop (ev # rawLogs) m = processLogs_loop rawLogs ?m1"
    using key h sp by (simp add: Let_def keyOf_lambdaOf)
  moreover have "hasOwn ?m1 ''hasOwnProperty''"
    by (simp add: hasOwn_def update_conv')
  ultimately show ?thesis by blast
qed

text \<open>Once the method is shadowed, the loop throws at the next entry that has a key.\<close>

lemma processLogs_loop_shadowed:
  assumes "hasOwn m ''hasOwnProperty''"
  shows "processLogs_loop rawLogs m = Inl TypeError \<or> processLogs_loop rawLogs m = Inr m"
proof (induction rawLogs)
  case Nil
  show ?case by simp
next
  case (Cons ev rawLogs)
  have "hasOwnProperty m (logKey ev) = Inl TypeError"
    using assms by (simp add: hasOwnProperty_def)
  then show ?case using Cons.IH by (simp add: Let_def keyOf_lambdaOf)
qed

lemma processLogs_loop_counts:
  assumes "wellKeyed m" and "\<forall>ev \<in> set rawLogs. logKey ev \<noteq> ''hasOwnProperty''"
  shows "\<exists>m'. processLogs_loop rawLogs m = Inr m' \<and> wellKeyed m'
              \<and> (\<forall>k. freqOf m' k =
                    freqOf m k + (if k = [] \<or> k = ''__proto__'' then 0
                                  else int (keyCount k rawLogs)))"
  using assms
proof (induction rawLogs arbitrary: m)
  case Nil
  then show ?case by (simp add: keyCount_def)
next
  case (Cons ev rawLogs)
  have skip: "processLogs_loop (ev # rawLogs) m = processLogs_loop rawLogs m
              \<Longrightarrow> logKey ev = [] \<or> logKey ev = ''__proto__'' \<Longrightarrow> ?case"
  proof -
    assume same: "processLogs_loop (ev # rawLogs) m = processLogs_loop rawLogs m"
      and key: "logKey ev = [] \<or> logKey ev = ''__proto__''"
    have cnt: "\<And>k. \<not> (k = [] \<or> k = ''__proto__'') \<Longrightarrow>
                 keyCount k (ev # rawLogs) = keyCount k rawLogs"
      using key by (auto simp: keyCount_def)
    from Cons.prems(2) have rest: "\<forall>ev \<in> set rawLogs. logKey ev \<noteq> ''hasOwnProperty''"
      by simp
    from Cons.IH [OF Cons.prems(1) rest] obtain m' where
      loop: "processLogs_loop rawLogs m = Inr m'" and wk': "wellKeyed m'"
      and f': "\<forall>k. freqOf m' k =
                 freqOf m k + (if k = [] \<or> k = ''__proto__'' then 0
                                else int (keyCount k rawLogs))"
      by blast
    have "\<forall>k. freqOf m' k =
                 freqOf m k + (if k = [] \<or> k = ''__proto__'' then 0
                                else int (keyCount k (ev # rawLogs)))"
    proof
      fix k
      show "freqOf m' k =
                 freqOf m k + (if k = [] \<or> k = ''__proto__'' then 0
                                else int (keyCount k (ev # rawLogs)))"
        using f' [rule_format, of k] cnt [of k] by (cases "k = [] \<or> k = ''__proto__''") simp_all
    qed
    moreover have "processLogs_loop (ev # rawLogs) m = Inr m'"
      unfolding same by (rule loop)
    ultimately show ?case using wk' by blast
  qed
  show ?case
  proof (cases "logKey ev = []")
    case True
    then have "processLogs_loop (ev # rawLogs) m = processLogs_loop rawLogs m"
      by (simp add: Let_def keyOf_lambdaOf)
    then show ?thesis using True by (intro skip) simp_all
  next
    case False
    note key = this
    show ?thesis
    proof (cases "logKey ev = ''__proto__''")
      case True
      with Cons.prems(1) have "processLogs_loop (ev # rawLogs) m = processLogs_loop rawLogs m"
        by (intro processLogs_step_proto)
      then show ?thesis using True by (intro skip) simp_all
    next
      case False
      with key Cons.prems obtain m1 where
        step: "processLogs_loop (ev # rawLogs) m = processLogs_loop rawLogs m1"
        and wk1: "wellKeyed m1"
        and f1: "\<forall>k. freqOf m1 k = freqOf m k + (if k = logKey ev then 1 else 0)"
        using processLogs_step [of m ev rawLogs] by auto
      from Cons.prems(2) have rest: "\<forall>ev \<in> set rawLogs. logKey ev \<noteq> ''hasOwnProperty''"
        by simp
      from Cons.IH [OF wk1 rest] obtain m' where
        loop: "processLogs_loop rawLogs m1 = Inr m'" and wk': "wellKeyed m'"
        and f': "\<forall>k. freqOf m' k =
                   freqOf m1 k + (if k = [] \<or> k = ''__proto__'' then 0
                                  else int (keyCount k rawLogs))"
        by blast
      have "\<forall>k. freqOf m' k =
                   freqOf m k + (if k = [] \<or> k = ''__proto__'' then 0
                                  else int (keyCount k (ev # rawLogs)))"
      proof
        fix k
        show "freqOf m' k =
                   freqOf m k + (if k = [] \<or> k = ''__proto__'' then 0
                                  else int (keyCount k (ev # rawLogs)))"
          using f1 [rule_format, of k] f' [rule_format, of k] key False
          by (simp add: keyCount_def)
      qed
      moreover have "processLogs_loop (ev # rawLogs) m = Inr m'"
        unfolding step by (rule loop)
      ultimately show ?thesis using wk' by blast
    qed
  qed
qed

lemma processLogs_loop_append:
  "processLogs_loop (xs @ ys) m =
     (case processLogs_loop xs m of Inl err \<Rightarrow> Inl err | Inr m1 \<Rightarrow> processLogs_loop ys m1)"
  by (induction xs arbitrary: m)
     (simp_all add: Let_def split: sum.split bool.split option.split)

text \<open>
  \<^verbatim>\<open>processLogs\<close> throws exactly when some entry has the key \<^verbatim>\<open>hasOwnProperty\<close>.
\<close>

lemma processLogs_throws:
  assumes "\<exists>ev \<in> set rawLogs. logKey ev = ''hasOwnProperty''"
  shows "processLogs rawLogs = Inl TypeError"
proof -
  from split_list_first_prop [OF assms] obtain pre ev post where
    split: "rawLogs = pre @ ev # post" and ev: "logKey ev = ''hasOwnProperty''"
    and pre: "\<forall>x \<in> set pre. logKey x \<noteq> ''hasOwnProperty''"
    by blast
  have wk0: "wellKeyed emptyObject"
    by (simp add: wellKeyed_def emptyObject_def hasOwn_def)
  from processLogs_loop_counts [OF wk0 pre] obtain m1 where
    l1: "processLogs_loop pre emptyObject = Inr m1" and wk1: "wellKeyed m1" by blast
  from processLogs_step_shadow [OF wk1 ev, of post] obtain m2 where
    l2: "processLogs_loop (ev # post) m1 = processLogs_loop post m2"
    and sh: "hasOwn m2 ''hasOwnProperty''" by blast
  have run: "processLogs_loop rawLogs emptyObject = processLogs_loop post m2"
    using l1 l2 by (simp add: split processLogs_loop_append)
  from processLogs_loop_shadowed [OF sh, of post] show ?thesis
  proof
    assume "processLogs_loop post m2 = Inl TypeError"
    with run show ?thesis by (simp add: processLogs_def)
  next
    assume "processLogs_loop post m2 = Inr m2"
    with run sh show ?thesis by (simp add: processLogs_def recordsOf_def)
  qed
qed

text \<open>
  On every other batch it returns, with exactly one record for each key that occurs,
  except for the key \<^verbatim>\<open>__proto__\<close>, which gets none; the frequency of a record is the
  number of entries with its key.
\<close>

lemma processLogs_counts:
  assumes "\<forall>ev \<in> set rawLogs. logKey ev \<noteq> ''hasOwnProperty''"
  shows "\<exists>records. processLogs rawLogs = Inr records
           \<and> distinct (map keyOf records)
           \<and> set (map keyOf records)
               = {k. k \<noteq> [] \<and> k \<noteq> ''__proto__'' \<and> k \<in> logKey ` set rawLogs}
           \<and> (\<forall>r \<in> set records. frequency r = int (keyCount (keyOf r) rawLogs))"
proof -
  have wk0: "wellKeyed emptyObject"
    by (simp add: wellKeyed_def emptyObject_def hasOwn_def)
  from processLogs_loop_counts [OF wk0 assms] obtain m where
    loop: "processLogs_loop rawLogs emptyObject = Inr m" and wk: "wellKeyed m"
    and f: "\<forall>k. freqOf m k
                 = freqOf emptyObject k + (if k = [] \<or> k = ''__proto__'' then 0
                                           else int (keyCount k rawLogs))"
    by auto
  let ?records = "map snd (forInOrder (own m))"
  have f0: "\<And>k. freqOf m k = (if k = [] \<or> k = ''__proto__'' then 0 else int (keyCount k rawLogs))"
    using f by (simp add: freqOf_def emptyObject_def)
  have res: "processLogs rawLogs = Inr ?records"
    using loop wk by (simp add: processLogs_def recordsOf_def wellKeyed_def)
  have keys: "map keyOf ?records = map fst (forInOrder (own m))"
    using wk by (auto simp: wellKeyed_def set_forInOrder)
  have d: "distinct (map keyOf ?records)"
    unfolding keys using wk by (simp add: wellKeyed_def distinct_fst_forInOrder)
  have entry: "\<And>p. p \<in> set (own m) \<Longrightarrow> frequency (snd p) = freqOf m (fst p)"
  proof -
    fix p assume "p \<in> set (own m)"
    then have "map_of (own m) (fst p) = Some (snd p)"
      using wk by (simp add: wellKeyed_def)
    then show "frequency (snd p) = freqOf m (fst p)" by (simp add: freqOf_def)
  qed
  have noproto: "\<And>p. p \<in> set (own m) \<Longrightarrow> fst p \<noteq> ''__proto__''"
  proof
    fix p assume "p \<in> set (own m)" "fst p = ''__proto__''"
    then have "''__proto__'' \<in> fst ` set (own m)" by force
    then have "hasOwn m ''__proto__''" by (simp add: hasOwn_def map_of_eq_None_iff)
    with wk show False by (simp add: wellKeyed_def)
  qed
  have freq: "\<forall>r \<in> set ?records. frequency r = int (keyCount (keyOf r) rawLogs)"
  proof
    fix r assume "r \<in> set ?records"
    then obtain p where p: "p \<in> set (own m)" "r = snd p"
      by (auto simp: set_forInOrder)
    then have k: "keyOf r = fst p" "fst p \<noteq> []" using wk by (auto simp: wellKeyed_def)
    show "frequency r = int (keyCount (keyOf r) rawLogs)"
      using entry [OF p(1)] p(2) k f0 [of "fst p"] noproto [OF p(1)] by simp
  qed
  have dom: "set (map keyOf ?records)
             = {k. k \<noteq> [] \<and> k \<noteq> ''__proto__'' \<and> k \<in> logKey ` set rawLogs}"
  proof (rule set_eqI)
    fix k
    have "k \<in> set (map keyOf ?records) \<longleftrightarrow> k \<in> fst ` set (own m)"
      unfolding keys by (simp add: set_forInOrder)
    also have "\<dots> \<longleftrightarrow> 1 \<le> freqOf m k"
    proof
      assume "k \<in> fst ` set (own m)"
      then obtain p where p: "p \<in> set (own m)" "k = fst p" by auto
      then show "1 \<le> freqOf m k" using entry [OF p(1)] wk by (auto simp: wellKeyed_def)
    next
      assume "1 \<le> freqOf m k"
      then have "map_of (own m) k \<noteq> None"
        by (auto simp: freqOf_def split: option.splits)
      then show "k \<in> fst ` set (own m)" by (simp add: map_of_eq_None_iff)
    qed
    also have "\<dots> \<longleftrightarrow> k \<noteq> [] \<and> k \<noteq> ''__proto__'' \<and> k \<in> logKey ` set rawLogs"
      unfolding f0 by (auto simp: keyCount_def filter_empty_conv Suc_le_eq)
    finally show "k \<in> set (map keyOf ?records)
                  \<longleftrightarrow> k \<in> {k. k \<noteq> [] \<and> k \<noteq> ''__proto__'' \<and> k \<in> logKey ` set rawLogs}"
      by simp
  qed
  from res d dom freq show ?thesis by blast
qed

text \<open>
  Claim C1 asks for one record per key on every batch. \<^verbatim>\<open>recordMap\<close> is a plain object,
  and two keys are not ordinary for it. An entry with the key \<^verbatim>\<open>__proto__\<close> is stored
  through the prototype setter and leaves no record. An entry with the key
  \<^verbatim>\<open>hasOwnProperty\<close> becomes an own property that shadows the method, and the next call
  \<^verbatim>\<open>recordMap.hasOwnProperty(key)\<close> throws, so no record at all is returned. The two
  lemmas above show that these are the only batches on which the claim fails.
\<close>

theorem processLogs_loses_prototype_keys:
  "processLogs
     [\<lparr>log_type = ''DNS'', log_timestamp = 1707926050000, log_url = ''__proto__'',
       log_address = []\<rparr>]
   = Inr []
   \<and> processLogs
       [\<lparr>log_type = ''DNS'', log_timestamp = 1707926050000, log_url = ''hasOwnProperty'',
         log_address = []\<rparr>,
        \<lparr>log_type = ''DNS'', log_timestamp = 1707926101000, log_url = ''github.com'',
         log_address = []\<rparr>]
     = Inl TypeError"
  by (simp add: processLogs_def recordsOf_def emptyObject_def hasOwnProperty_def hasOwn_def
      getProperty_def setProperty_def lambdaOf_def keyOf_def forInOrder_def Let_def)

subsection \<open>Scenarios A, B and C of the specification\<close>

lemmas aggregation_defs =
  processLogs_def recordsOf_def emptyObject_def hasOwnProperty_def hasOwn_def
  getProperty_def setProperty_def lambdaOf_def keyOf_def updateExistingRecord_def
  forInOrder_def isArrayIndex_def isDigit_def

lemma scenario_A:
  "processLogs (parseShellOutput demoEnv
     (''DNS|Feb 14 15:54:10|github.com|A'' @ [CHR 0x0A] @ ''DNS|Feb 14 15:55:01|github.com|A''))
   = Inr [\<lparr>url = ''github.com'', address = [], firstTimestamp = 1707926050000,
           lastTimestamp = 1707926101000, frequency = 2, category = [], data = [],
           type = ''DNS''\<rparr>]"
  by (simp add: parser_defs aggregation_defs)

lemma scenario_B:
  "processLogs (parseShellOutput demoEnv ''HTTPS|Feb 14 15:55:50|160.79.104.10'')
   = Inr [\<lparr>url = [], address = ''160.79.104.10'', firstTimestamp = 1707926150000,
           lastTimestamp = 1707926150000, frequency = 1, category = [], data = [],
           type = ''HTTPS''\<rparr>]"
  by (simp add: parser_defs aggregation_defs)

lemma scenario_C:
  "processLogs (parseShellOutput demoEnv
     (''DNS|Feb 14 15:54:10|github.com|A'' @ [CHR 0x0A] @ ''GARBAGE|not-a-kind'' @ [CHR 0x0A]
      @ ''HTTPS|Feb 14 15:55:50|160.79.104.10''))
   = Inr [\<lparr>url = ''github.com'', address = [], firstTimestamp = 1707926050000,
           lastTimestamp = 1707926050000, frequency = 1, category = [], data = [],
           type = ''DNS''\<rparr>,
          \<lparr>url = [], address = ''160.79.104.10'', firstTimestamp = 1707926150000,
           lastTimestamp = 1707926150000, frequency = 1, category = [], data = [],
           type = ''HTTPS''\<rparr>]"
  by (simp add: parser_defs aggregation_defs)

section \<open>Sorting\<close>

subsection \<open>The comparator on empty values\<close>

lemma compare_empty_empty: "emptyIn c a \<Longrightarrow> emptyIn c b \<Longrightarrow> compareRecords c d a b = 0"
  by (simp add: compareRecords_def emptyIn_def Let_def)

lemma compare_empty_full: "emptyIn c a \<Longrightarrow> \<not> emptyIn c b \<Longrightarrow> compareRecords c d a b = 1"
  by (simp add: compareRecords_def emptyIn_def Let_def)

lemma compare_full_empty: "\<not> emptyIn c a \<Longrightarrow> emptyIn c b \<Longrightarrow> compareRecords c d a b = - 1"
  by (simp add: compareRecords_def emptyIn_def Let_def)

lemma compare_direction_flips:
  "\<not> emptyIn c a \<Longrightarrow> \<not> emptyIn c b \<Longrightarrow> d \<noteq> ''asc'' \<Longrightarrow>
   compareRecords c d a b = - compareRecords c ''asc'' a b"
  by (simp add: compareRecords_def emptyIn_def Let_def)

lemma compare_direction_irrelevant:
  "emptyIn c a \<or> emptyIn c b \<Longrightarrow> compareRecords c d a b = compareRecords c ''asc'' a b"
  by (auto simp: compareRecords_def emptyIn_def Let_def)

subsection \<open>Stable insertion\<close>

lemma mset_insertSorted: "mset (insertSorted cmp x ys) = add_mset x (mset ys)"
  by (induction ys) auto

lemma mset_arraySort: "mset (arraySort cmp xs) = mset xs"
  by (induction xs) (simp_all add: arraySort_def mset_insertSorted)

lemma set_arraySort: "set (arraySort cmp xs) = set xs"
  using mset_arraySort [of cmp xs] by (metis set_mset_mset)

lemma arraySort_Cons: "arraySort cmp (x # xs) = insertSorted cmp x (arraySort cmp xs)"
  by (simp add: arraySort_def)

lemma insertSorted_passes:
  "\<forall>y \<in> set ys. 0 < cmp x y \<Longrightarrow> insertSorted cmp x (ys @ zs) = ys @ insertSorted cmp x zs"
  by (induction ys) auto

lemma insertSorted_stops:
  "\<forall>z \<in> set zs. cmp x z \<le> 0 \<Longrightarrow> insertSorted cmp x zs = x # zs"
  by (cases zs) auto

lemma insertSorted_before:
  "\<forall>z \<in> set zs. cmp x z \<le> 0 \<Longrightarrow> insertSorted cmp x (ys @ zs) = insertSorted cmp x ys @ zs"
  by (induction ys) (auto simp: insertSorted_stops)

lemma insert_empty_record:
  assumes "emptyIn c x" "\<forall>y \<in> set ys. \<not> emptyIn c y" "\<forall>z \<in> set zs. emptyIn c z"
  shows "insertSorted (compareRecords c d) x (ys @ zs) = ys @ x # zs"
proof -
  have "\<forall>y \<in> set ys. 0 < compareRecords c d x y"
    using assms(1,2) by (simp add: compare_empty_full)
  moreover have "\<forall>z \<in> set zs. compareRecords c d x z \<le> 0"
    using assms(1,3) by (simp add: compare_empty_empty)
  ultimately show ?thesis by (simp add: insertSorted_passes insertSorted_stops)
qed

lemma insert_full_record:
  assumes "\<not> emptyIn c x" "\<forall>z \<in> set zs. emptyIn c z"
  shows "insertSorted (compareRecords c d) x (ys @ zs)
         = insertSorted (compareRecords c d) x ys @ zs"
proof -
  have "\<forall>z \<in> set zs. compareRecords c d x z \<le> 0"
    using assms by (simp add: compare_full_empty)
  then show ?thesis by (rule insertSorted_before)
qed

text \<open>
  The sorted array is the sorted array of the records that have a value, followed by the
  records that have none, these in their original order.
\<close>

lemma arraySort_empty_last:
  "arraySort (compareRecords c d) records =
     arraySort (compareRecords c d) (filter (\<lambda>r. \<not> emptyIn c r) records)
     @ filter (emptyIn c) records"
proof (induction records)
  case Nil
  show ?case by (simp add: arraySort_def)
next
  case (Cons x records)
  let ?full = "arraySort (compareRecords c d) (filter (\<lambda>r. \<not> emptyIn c r) records)"
  have full: "\<forall>y \<in> set ?full. \<not> emptyIn c y" by (simp add: set_arraySort)
  have empty: "\<forall>z \<in> set (filter (emptyIn c) records). emptyIn c z" by simp
  show ?case
  proof (cases "emptyIn c x")
    case True
    then show ?thesis
      using insert_empty_record [OF True full empty, of d] Cons.IH
      by (simp add: arraySort_Cons)
  next
    case False
    then show ?thesis
      using insert_full_record [OF False empty, of d ?full] Cons.IH
      by (simp add: arraySort_Cons)
  qed
qed

lemma empty_last_index:
  assumes "out = full @ rest" "\<forall>y \<in> set full. \<not> P y" "\<forall>z \<in> set rest. P z"
    and "i < j" "j < length out" "P (out ! i)"
  shows "P (out ! j)"
proof -
  have "\<not> i < length full"
    using assms(1,2,6) by (auto simp: nth_append)
  then have "\<not> j < length full" using assms(4) by simp
  then have "out ! j = rest ! (j - length full)" "j - length full < length rest"
    using assms(1,5) by (auto simp: nth_append)
  then show ?thesis using assms(3) by simp
qed

lemma sortRecords_empty_last_index:
  assumes "i < j" "j < length (sortRecords s records)"
    and "emptyIn (sortColumn s) (sortRecords s records ! i)"
  shows "emptyIn (sortColumn s) (sortRecords s records ! j)"
proof -
  let ?c = "sortColumn s" and ?d = "sortDirection s"
  let ?full = "arraySort (compareRecords ?c ?d) (filter (\<lambda>r. \<not> emptyIn ?c r) records)"
  have "sortRecords s records = ?full @ filter (emptyIn ?c) records"
    unfolding sortRecords_def by (rule arraySort_empty_last)
  moreover have "\<forall>y \<in> set ?full. \<not> emptyIn ?c y" by (simp add: set_arraySort)
  moreover have "\<forall>z \<in> set (filter (emptyIn ?c) records). emptyIn ?c z" by simp
  ultimately show ?thesis using assms by (rule empty_last_index)
qed

subsection \<open>The comparator is consistent\<close>

text \<open>
  \<^verbatim>\<open>records.sort\<close> is specified for a consistent comparator only. This one is, so the
  sorted array is determined, and it is ordered by the comparator.
\<close>

lemma js_less_irrefl: "\<not> js_less a a"
  by (induction a) auto

lemma js_less_total: "js_less a b \<or> a = b \<or> js_less b a"
  by (induction a b rule: js_less.induct) (auto simp: of_char_eq_iff)

lemma js_less_trans: "js_less a b \<Longrightarrow> js_less b c \<Longrightarrow> js_less a c"
proof (induction a b arbitrary: c rule: js_less.induct)
  case 1
  then show ?case by simp
next
  case (2 y ys)
  then show ?case by (cases c) auto
next
  case (3 x xs)
  then show ?case by simp
next
  case (4 x xs y ys)
  then show ?case by (cases c) (auto split: if_splits)
qed

lemma js_less_asym: "js_less a b \<Longrightarrow> \<not> js_less b a"
  using js_less_trans [of a b a] js_less_irrefl [of a] by blast

lemma not_js_less_trans: "\<not> js_less b a \<Longrightarrow> \<not> js_less c b \<Longrightarrow> \<not> js_less c a"
  using js_less_total [of a b] js_less_total [of b c] js_less_trans js_less_asym by metis

text \<open>Swapping the arguments negates the comparator, and it is transitive.\<close>

lemma compareRecords_swap: "compareRecords c d b a = - compareRecords c d a b"
proof -
  let ?a = "toLowerCase (stringOf (getField c a))" and ?b = "toLowerCase (stringOf (getField c b))"
  have "js_less ?a ?b \<Longrightarrow> \<not> js_less ?b ?a" by (rule js_less_asym)
  then show ?thesis
    by (auto simp: compareRecords_def Let_def)
qed

lemma compareRecords_trans:
  assumes "compareRecords c d x y \<le> 0" "compareRecords c d y z \<le> 0"
  shows "compareRecords c d x z \<le> 0"
proof -
  let ?x = "toLowerCase (stringOf (getField c x))" and ?y = "toLowerCase (stringOf (getField c y))"
    and ?z = "toLowerCase (stringOf (getField c z))"
  have up: "\<not> js_less ?y ?x \<Longrightarrow> \<not> js_less ?z ?y \<Longrightarrow> \<not> js_less ?z ?x"
    by (rule not_js_less_trans)
  have down: "\<not> js_less ?y ?z \<Longrightarrow> \<not> js_less ?x ?y \<Longrightarrow> \<not> js_less ?x ?z"
    by (rule not_js_less_trans)
  show ?thesis
  proof (cases "isEmptyValue (getField c x) \<or> isEmptyValue (getField c y) \<or> isEmptyValue (getField c z)")
    case True
    then show ?thesis using assms
      by (auto simp: compareRecords_def Let_def split: if_splits)
  next
    case False
    show ?thesis
    proof (cases "c = FirstTimestamp \<or> c = LastTimestamp \<or> c = Frequency")
      case True
      then show ?thesis using assms False
        by (auto simp: compareRecords_def Let_def split: if_splits)
    next
      case str: False
      show ?thesis
      proof (cases "d = ''asc''")
        case True
        have "\<not> js_less ?y ?x" "\<not> js_less ?z ?y"
          using assms False str True
          by (auto simp: compareRecords_def Let_def split: if_splits dest: js_less_asym)
        then have "\<not> js_less ?z ?x" by (rule up)
        then show ?thesis using False str True by (simp add: compareRecords_def Let_def)
      next
        case desc: False
        have "\<not> js_less ?x ?y" "\<not> js_less ?y ?z"
          using assms False str desc
          by (auto simp: compareRecords_def Let_def split: if_splits dest: js_less_asym)
        then have "\<not> js_less ?x ?z" using down by blast
        then show ?thesis using False str desc by (simp add: compareRecords_def Let_def)
      qed
    qed
  qed
qed

lemma sorted_insertSorted:
  assumes swap: "\<And>a b. cmp b a = - cmp a b"
    and trans: "\<And>a b c. cmp a b \<le> 0 \<Longrightarrow> cmp b c \<le> 0 \<Longrightarrow> cmp a c \<le> (0::int)"
  shows "sorted_wrt (\<lambda>a b. cmp a b \<le> 0) ys \<Longrightarrow> sorted_wrt (\<lambda>a b. cmp a b \<le> 0) (insertSorted cmp x ys)"
proof (induction ys)
  case Nil
  show ?case by simp
next
  case (Cons y ys)
  show ?case
  proof (cases "cmp x y \<le> 0")
    case True
    then have "\<forall>z \<in> set ys. cmp x z \<le> 0"
      using Cons.prems trans by auto
    with True Cons.prems show ?thesis by simp
  next
    case False
    then have yx: "cmp y x \<le> 0" using swap [of x y] by simp
    have "set (insertSorted cmp x ys) = insert x (set ys)"
      using mset_insertSorted [of cmp x ys] by (metis set_mset_mset set_mset_add_mset_insert)
    with yx Cons False show ?thesis by auto
  qed
qed

lemma sortRecords_sorted:
  "sorted_wrt (\<lambda>a b. compareRecords (sortColumn s) (sortDirection s) a b \<le> 0) (sortRecords s records)"
  unfolding sortRecords_def
proof (induction records)
  case Nil
  show ?case by (simp add: arraySort_def)
next
  case (Cons r records)
  show ?case
    unfolding arraySort_Cons
    using compareRecords_swap compareRecords_trans Cons.IH by (rule sorted_insertSorted)
qed

text \<open>
  Claim C7: for every record set, column and direction, \<^verbatim>\<open>sortRecords\<close> returns the same
  records, and no record without a value in the column stands before a record with one.
  The direction enters the comparator only when both records have a value, where any
  direction other than \<^verbatim>\<open>"asc"\<close> negates the result; with an empty value on either side
  the result is the same in every direction.
\<close>

theorem sort_puts_empty_values_last:
  "mset (sortRecords s records) = mset records
   \<and> (\<forall>i j. i < j \<longrightarrow> j < length (sortRecords s records) \<longrightarrow>
          emptyIn (sortColumn s) (sortRecords s records ! i) \<longrightarrow>
          emptyIn (sortColumn s) (sortRecords s records ! j))
   \<and> (emptyIn c a \<or> emptyIn c b \<longrightarrow>
        compareRecords c direction a b = compareRecords c ''asc'' a b)
   \<and> (\<not> emptyIn c a \<longrightarrow> \<not> emptyIn c b \<longrightarrow> direction \<noteq> ''asc'' \<longrightarrow>
        compareRecords c direction a b = - compareRecords c ''asc'' a b)"
proof (intro conjI allI impI)
  show "mset (sortRecords s records) = mset records"
    by (simp add: sortRecords_def mset_arraySort)
next
  fix i j
  assume "i < j" "j < length (sortRecords s records)"
    "emptyIn (sortColumn s) (sortRecords s records ! i)"
  then show "emptyIn (sortColumn s) (sortRecords s records ! j)"
    by (rule sortRecords_empty_last_index)
next
  assume "emptyIn c a \<or> emptyIn c b"
  then show "compareRecords c direction a b = compareRecords c ''asc'' a b"
    by (rule compare_direction_irrelevant)
next
  assume "\<not> emptyIn c a" "\<not> emptyIn c b" "direction \<noteq> ''asc''"
  then show "compareRecords c direction a b = - compareRecords c ''asc'' a b"
    by (rule compare_direction_flips)
qed

lemmas sort_defs =
  sortRecords_def arraySort_def compareRecords_def getField_def isEmptyValue_def emptyIn_def
  stringOf_def toLowerCase_def lowerChar_def initialState_def Let_def

theorem sort_puts_empty_values_last_witness:
  "sortRecords (initialState\<lparr>sortColumn := Url\<rparr>)
     [\<lparr>url = [], address = ''160.79.104.10'', firstTimestamp = 3, lastTimestamp = 3,
       frequency = 1, category = [], data = [], type = ''HTTPS''\<rparr>,
      \<lparr>url = ''Alpha.example'', address = [], firstTimestamp = 1, lastTimestamp = 1,
       frequency = 1, category = [], data = [], type = ''DNS''\<rparr>,
      \<lparr>url = ''beta.example'', address = [], firstTimestamp = 2, lastTimestamp = 2,
       frequency = 1, category = [], data = [], type = ''DNS''\<rparr>]
   = [\<lparr>url = ''beta.example'', address = [], firstTimestamp = 2, lastTimestamp = 2,
        frequency = 1, category = [], data = [], type = ''DNS''\<rparr>,
      \<lparr>url = ''Alpha.example'', address = [], firstTimestamp = 1, lastTimestamp = 1,
        frequency = 1, category = [], data = [], type = ''DNS''\<rparr>,
      \<lparr>url = [], address = ''160.79.104.10'', firstTimestamp = 3, lastTimestamp = 3,
        frequency = 1, category = [], data = [], type = ''HTTPS''\<rparr>]
   \<and> compareRecords Url ''desc''
        \<lparr>url = ''Alpha.example'', address = [], firstTimestamp = 1, lastTimestamp = 1,
          frequency = 1, category = [], data = [], type = ''DNS''\<rparr>
        \<lparr>url = ''beta.example'', address = [], firstTimestamp = 2, lastTimestamp = 2,
          frequency = 1, category = [], data = [], type = ''DNS''\<rparr>
      = - compareRecords Url ''asc''
        \<lparr>url = ''Alpha.example'', address = [], firstTimestamp = 1, lastTimestamp = 1,
          frequency = 1, category = [], data = [], type = ''DNS''\<rparr>
        \<lparr>url = ''beta.example'', address = [], firstTimestamp = 2, lastTimestamp = 2,
          frequency = 1, category = [], data = [], type = ''DNS''\<rparr>
   \<and> emptyIn Url
        \<lparr>url = [], address = ''160.79.104.10'', firstTimestamp = 3, lastTimestamp = 3,
          frequency = 1, category = [], data = [], type = ''HTTPS''\<rparr>"
proof -
  let ?ip = "\<lparr>url = [], address = ''160.79.104.10'', firstTimestamp = 3, lastTimestamp = 3,
              frequency = 1, category = [], data = [], type = ''HTTPS''\<rparr>"
  let ?a = "\<lparr>url = ''Alpha.example'', address = [], firstTimestamp = 1, lastTimestamp = 1,
             frequency = 1, category = [], data = [], type = ''DNS''\<rparr>"
  let ?b = "\<lparr>url = ''beta.example'', address = [], firstTimestamp = 2, lastTimestamp = 2,
             frequency = 1, category = [], data = [], type = ''DNS''\<rparr>"
  have sorted: "sortRecords (initialState\<lparr>sortColumn := Url\<rparr>) [?ip, ?a, ?b] = [?b, ?a, ?ip]"
    by (simp add: sort_defs)
  have full: "\<not> emptyIn Url ?a" "\<not> emptyIn Url ?b" and empty: "emptyIn Url ?ip"
    by (simp_all add: sort_defs)
  have dir: "''desc'' \<noteq> ''asc''" by simp
  show ?thesis
    using sort_puts_empty_values_last
            [of "initialState\<lparr>sortColumn := Url\<rparr>" "[?ip, ?a, ?b]" Url ?a ?b "''desc''"]
          sorted full empty dir
    by simp
qed

section \<open>The usage counter\<close>

lemma loadIpInfoUsage_count:
  "\<not> noUsagePath s \<Longrightarrow>
   ipInfoDailyCount (loadIpInfoUsage e (ReadResolved (Some blob)) s) =
     (if blob \<noteq> [] \<and> js_trim blob \<noteq> [] \<and> length (js_split CHR ''|'' (js_trim blob)) = 2
         \<and> js_split CHR ''|'' (js_trim blob) ! 0 = todayStr e
      then (case parseInt10 (js_split CHR ''|'' (js_trim blob) ! 1) of
              None \<Rightarrow> 0 | Some n \<Rightarrow> n)
      else 0)"
  by (simp add: loadIpInfoUsage_def loadIpInfoUsage_then_def Let_def)

lemma list_of_length_two: "length xs = 2 \<Longrightarrow> xs = [xs ! 0, xs ! 1]"
  by (cases xs; cases "tl xs") auto

text \<open>
  Claim C8: with a usage path set, loading a blob whose two fields are a day and a count
  gives the count zero when the day is not the current day, and the stored count (zero
  when it is not a number) when it is; a count other than zero after the load means that
  the blob had exactly the two fields and that its day is the current day.
\<close>

theorem stale_usage_count_is_reset:
  assumes "\<not> noUsagePath s"
  shows "(\<forall>day cnt. js_split CHR ''|'' (js_trim blob) = [day, cnt] \<longrightarrow> day \<noteq> todayStr e \<longrightarrow>
            ipInfoDailyCount (loadIpInfoUsage e (ReadResolved (Some blob)) s) = 0)
       \<and> (\<forall>cnt. js_split CHR ''|'' (js_trim blob) = [todayStr e, cnt] \<longrightarrow>
            ipInfoDailyCount (loadIpInfoUsage e (ReadResolved (Some blob)) s)
              = (case parseInt10 cnt of None \<Rightarrow> 0 | Some n \<Rightarrow> n))
       \<and> (ipInfoDailyCount (loadIpInfoUsage e (ReadResolved (Some blob)) s) \<noteq> 0 \<longrightarrow>
            (\<exists>cnt. js_split CHR ''|'' (js_trim blob) = [todayStr e, cnt]))"
proof (intro conjI allI impI)
  fix day cnt
  assume "js_split CHR ''|'' (js_trim blob) = [day, cnt]" "day \<noteq> todayStr e"
  then show "ipInfoDailyCount (loadIpInfoUsage e (ReadResolved (Some blob)) s) = 0"
    using assms by (simp add: loadIpInfoUsage_count)
next
  fix cnt
  assume sp: "js_split CHR ''|'' (js_trim blob) = [todayStr e, cnt]"
  then have "js_trim blob \<noteq> []" by auto
  moreover then have "blob \<noteq> []" by (auto simp: js_trim_def)
  ultimately show "ipInfoDailyCount (loadIpInfoUsage e (ReadResolved (Some blob)) s)
              = (case parseInt10 cnt of None \<Rightarrow> 0 | Some n \<Rightarrow> n)"
    using assms sp by (simp add: loadIpInfoUsage_count)
next
  assume "ipInfoDailyCount (loadIpInfoUsage e (ReadResolved (Some blob)) s) \<noteq> 0"
  then have l: "length (js_split CHR ''|'' (js_trim blob)) = 2"
    and d: "js_split CHR ''|'' (js_trim blob) ! 0 = todayStr e"
    using assms by (auto simp: loadIpInfoUsage_count split: if_splits)
  from list_of_length_two [OF l] d
  have "js_split CHR ''|'' (js_trim blob) = [todayStr e, js_split CHR ''|'' (js_trim blob) ! 1]"
    by simp
  then show "\<exists>cnt. js_split CHR ''|'' (js_trim blob) = [todayStr e, cnt]" ..
qed

text \<open>The witness is Scenario E of the specification: the day is 2024-01-02.\<close>

theorem stale_usage_count_is_reset_witness:
  "\<not> noUsagePath (initialState\<lparr>ipInfoUsagePath := Some ''/home/admin/ipinfo_usage.txt''\<rparr>)
   \<and> js_split CHR ''|'' (js_trim ''2024-01-01|999'') = [''2024-01-01'', ''999'']
   \<and> ''2024-01-01'' \<noteq> todayStr demoEnv
   \<and> ipInfoDailyCount
        (loadIpInfoUsage demoEnv (ReadResolved (Some ''2024-01-01|999''))
           (initialState\<lparr>ipInfoUsagePath := Some ''/home/admin/ipinfo_usage.txt''\<rparr>)) = 0"
proof -
  let ?s = "initialState\<lparr>ipInfoUsagePath := Some ''/home/admin/ipinfo_usage.txt''\<rparr>"
  have path: "\<not> noUsagePath ?s" by (simp add: noUsagePath_def)
  have fields: "js_split CHR ''|'' (js_trim ''2024-01-01|999'') = [''2024-01-01'', ''999'']"
    by (simp add: js_trim_def isWhiteSpace_def)
  have day: "''2024-01-01'' \<noteq> todayStr demoEnv" by (simp add: demoEnv_def)
  show ?thesis
    using stale_usage_count_is_reset [OF path, of "''2024-01-01|999''" demoEnv]
          path fields day
    by simp
qed

text \<open>On the day itself the stored count is used.\<close>

lemma usage_count_of_today:
  "ipInfoDailyCount
     (loadIpInfoUsage demoEnv (ReadResolved (Some ''2024-01-02|999''))
        (initialState\<lparr>ipInfoUsagePath := Some ''/home/admin/ipinfo_usage.txt''\<rparr>)) = 999"
  by (simp add: loadIpInfoUsage_def loadIpInfoUsage_then_def noUsagePath_def js_trim_def
      isWhiteSpace_def demoEnv_def parseInt10_def isDigit_def decimalValue_def
      digitValue_def Let_def)

section \<open>A failed fetch\<close>

text \<open>
  Claim C9: when the spawn of the collector is rejected, the record set is the one before
  the call. Unless a fetch was already running (then nothing is spawned and nothing can
  fail), the call adds one error banner, whose text is the fixed prefix followed by the
  message of the error, and clears \<^verbatim>\<open>isFetching\<close>.
\<close>

theorem failed_fetch_keeps_records:
  "trafficRecords (fetchAndRenderData e (Rejected err) s) = trafficRecords s
   \<and> trafficRecords (fetchAndRenderData_catch err s) = trafficRecords s
   \<and> (\<not> isFetching s \<longrightarrow>
        effects (fetchAndRenderData e (Rejected err) s) =
          effects s @ (if trafficRecords s = [] then [ShowLoading] else [])
          @ [HideError, SpawnFetchLogs (scriptPath s) (timeRange s),
             ShowError (''Failed to fetch traffic data: '' @ errorMessage err), HideLoading]
        \<and> \<not> isFetching (fetchAndRenderData e (Rejected err) s))"
  by (simp add: fetchAndRenderData_def fetchAndRenderData_start_def
      fetchAndRenderData_catch_def Let_def)

theorem failed_fetch_keeps_records_witness:
  "\<not> isFetching
       (initialState\<lparr>trafficRecords :=
          [\<lparr>url = ''github.com'', address = [], firstTimestamp = 1707926050000,
            lastTimestamp = 1707926101000, frequency = 2, category = [], data = [],
            type = ''DNS''\<rparr>]\<rparr>)
   \<and> trafficRecords
       (fetchAndRenderData demoEnv
          (Rejected \<lparr>message = ''Permission denied'', problem = ''access-denied'',
                     asString = ''[object Object]''\<rparr>)
          (initialState\<lparr>trafficRecords :=
             [\<lparr>url = ''github.com'', address = [], firstTimestamp = 1707926050000,
               lastTimestamp = 1707926101000, frequency = 2, category = [], data = [],
               type = ''DNS''\<rparr>]\<rparr>))
     = [\<lparr>url = ''github.com'', address = [], firstTimestamp = 1707926050000,
          lastTimestamp = 1707926101000, frequency = 2, category = [], data = [],
          type = ''DNS''\<rparr>]
   \<and> effects
       (fetchAndRenderData demoEnv
          (Rejected \<lparr>message = ''Permission denied'', problem = ''access-denied'',
                     asString = ''[object Object]''\<rparr>)
          (initialState\<lparr>trafficRecords :=
             [\<lparr>url = ''github.com'', address = [], firstTimestamp = 1707926050000,
               lastTimestamp = 1707926101000, frequency = 2, category = [], data = [],
               type = ''DNS''\<rparr>]\<rparr>))
     = [HideError, SpawnFetchLogs None ''24 hours ago'',
        ShowError ''Failed to fetch traffic data: Permission denied'', HideLoading]"
proof -
  let ?s = "initialState\<lparr>trafficRecords :=
              [\<lparr>url = ''github.com'', address = [], firstTimestamp = 1707926050000,
                lastTimestamp = 1707926101000, frequency = 2, category = [], data = [],
                type = ''DNS''\<rparr>]\<rparr>"
  let ?err = "\<lparr>message = ''Permission denied'', problem = ''access-denied'',
               asString = ''[object Object]''\<rparr>"
  have idle: "\<not> isFetching ?s" by (simp add: initialState_def)
  show ?thesis
    using failed_fetch_keeps_records [of demoEnv ?err ?s] idle
    by (simp add: initialState_def errorMessage_def)
qed

section \<open>Enrichment\<close>

subsection \<open>Filling empty fields only\<close>

lemma fillsOnly_refl: "fillsOnly r r"
  by (simp add: fillsOnly_def)

lemma fillsOnly_trans: "fillsOnly a b \<Longrightarrow> fillsOnly b c \<Longrightarrow> fillsOnly a c"
  by (auto simp: fillsOnly_def)

lemma enrichedFrom_refl: "enrichedFrom rs rs"
  by (simp add: enrichedFrom_def list_all2_refl fillsOnly_refl)

lemma enrichedFrom_trans: "enrichedFrom a b \<Longrightarrow> enrichedFrom b c \<Longrightarrow> enrichedFrom a c"
  unfolding enrichedFrom_def using fillsOnly_trans by (rule list_all2_trans)

lemma enrichedFrom_map: "(\<And>r. fillsOnly r (f r)) \<Longrightarrow> enrichedFrom rs (map f rs)"
  by (simp add: enrichedFrom_def list_all2_map2 list_all2_refl)

lemma enrichedFrom_update:
  "i < length rs \<Longrightarrow> fillsOnly (rs ! i) r' \<Longrightarrow> enrichedFrom rs (rs[i := r'])"
  by (simp add: enrichedFrom_def list_all2_conv_all_nth nth_list_update fillsOnly_refl)

lemma fillsOnly_applyToRecord: "fillsOnly r (applyToRecord lookupKey result r)"
  by (simp add: fillsOnly_def applyToRecord_def Let_def)

lemma applyIpInfoResult_fills:
  "enrichedFrom (trafficRecords s) (trafficRecords (applyIpInfoResult lookupKey result s))"
  by (simp add: applyIpInfoResult_def enrichedFrom_map fillsOnly_applyToRecord)

lemma rdns_done:
  "\<not> i < length (trafficRecords s) \<Longrightarrow> enrichWithReverseDns_from i s = Normal s"
  by (subst enrichWithReverseDns_from.simps) simp

lemma rdns_skip:
  "i < length (trafficRecords s) \<Longrightarrow>
   \<not> (address (trafficRecords s ! i) \<noteq> [] \<and> url (trafficRecords s ! i) = []) \<Longrightarrow>
   enrichWithReverseDns_from i s = enrichWithReverseDns_from (Suc i) s"
  by (subst enrichWithReverseDns_from.simps) auto

lemma rdns_step:
  "i < length (trafficRecords s) \<Longrightarrow>
   address (trafficRecords s ! i) \<noteq> [] \<Longrightarrow> url (trafficRecords s ! i) = [] \<Longrightarrow>
   enrichWithReverseDns_from i s =
     (case performReverseDns (address (trafficRecords s ! i)) i s of
        Throws err s' \<Rightarrow> Throws err s'
      | Normal s' \<Rightarrow> enrichWithReverseDns_from (Suc i) s')"
  by (subst enrichWithReverseDns_from.simps) simp

lemma performReverseDns_records:
  "trafficRecords (stateOf (performReverseDns ipAddress recordIndex s)) = trafficRecords s
   \<or> (\<exists>cached. recordIndex < length (trafficRecords s)
        \<and> trafficRecords (stateOf (performReverseDns ipAddress recordIndex s))
           = (trafficRecords s)[recordIndex := (trafficRecords s ! recordIndex)\<lparr>url := cached\<rparr>])"
  by (auto simp: performReverseDns_def stateOf_def split: sum.split bool.split option.split)

lemma performReverseDns_fills:
  assumes "recordIndex < length (trafficRecords s) \<longrightarrow> url (trafficRecords s ! recordIndex) = []"
  shows "enrichedFrom (trafficRecords s)
           (trafficRecords (stateOf (performReverseDns ipAddress recordIndex s)))"
proof -
  from performReverseDns_records [of ipAddress recordIndex s] show ?thesis
  proof
    assume "trafficRecords (stateOf (performReverseDns ipAddress recordIndex s)) = trafficRecords s"
    then show ?thesis by (simp add: enrichedFrom_refl)
  next
    assume "\<exists>cached. recordIndex < length (trafficRecords s)
        \<and> trafficRecords (stateOf (performReverseDns ipAddress recordIndex s))
           = (trafficRecords s)[recordIndex := (trafficRecords s ! recordIndex)\<lparr>url := cached\<rparr>]"
    then obtain cached where i: "recordIndex < length (trafficRecords s)"
      and r: "trafficRecords (stateOf (performReverseDns ipAddress recordIndex s))
           = (trafficRecords s)[recordIndex := (trafficRecords s ! recordIndex)\<lparr>url := cached\<rparr>]"
      by blast
    have "fillsOnly (trafficRecords s ! recordIndex) ((trafficRecords s ! recordIndex)\<lparr>url := cached\<rparr>)"
      using assms i by (simp add: fillsOnly_def)
    with i show ?thesis unfolding r by (rule enrichedFrom_update)
  qed
qed

lemma enrichWithReverseDns_from_fills:
  "enrichedFrom (trafficRecords s) (trafficRecords (stateOf (enrichWithReverseDns_from i s)))"
proof (induction i s rule: enrichWithReverseDns_from.induct)
  case (1 i s)
  show ?case
  proof (cases "i < length (trafficRecords s)")
    case False
    then show ?thesis by (simp add: rdns_done stateOf_def enrichedFrom_refl)
  next
    case True
    note inside = this
    show ?thesis
    proof (cases "address (trafficRecords s ! i) \<noteq> [] \<and> url (trafficRecords s ! i) = []")
      case False
      with inside "1.IH"(2) show ?thesis by (simp add: rdns_skip)
    next
      case True
      let ?out = "performReverseDns (address (trafficRecords s ! i)) i s"
      have step: "enrichedFrom (trafficRecords s) (trafficRecords (stateOf ?out))"
        using True by (intro performReverseDns_fills) simp
      show ?thesis
      proof (cases ?out)
        case (Throws err s')
        with inside True step show ?thesis by (simp add: rdns_step stateOf_def)
      next
        case (Normal s')
        with inside True "1.IH"(1) [of s']
        have "enrichedFrom (trafficRecords s')
                (trafficRecords (stateOf (enrichWithReverseDns_from (Suc i) s')))"
          by simp
        moreover from step Normal have "enrichedFrom (trafficRecords s) (trafficRecords s')"
          by (simp add: stateOf_def)
        ultimately have "enrichedFrom (trafficRecords s)
                (trafficRecords (stateOf (enrichWithReverseDns_from (Suc i) s')))"
          by (rule enrichedFrom_trans [rotated])
        then show ?thesis
          using inside True Normal by (simp add: rdns_step)
      qed
    qed
  qed
qed

lemma ipinfo_done:
  "\<not> i < length (trafficRecords s) \<Longrightarrow> enrichWithIpInfo_from i d h s = Normal (h, s)"
  by (subst enrichWithIpInfo_from.simps) simp

lemma ipinfo_skip:
  "i < length (trafficRecords s) \<Longrightarrow> \<not> ipInfoCandidate s i \<Longrightarrow>
   enrichWithIpInfo_from i d h s = enrichWithIpInfo_from (Suc i) d h s"
  by (subst enrichWithIpInfo_from.simps) (auto simp: ipInfoCandidate_def Let_def)

lemma ipinfo_candidate:
  "ipInfoCandidate s i \<Longrightarrow>
   enrichWithIpInfo_from i d h s =
     (case hasOwnProperty (ipInfoCache s) (lookupKeyOf (trafficRecords s ! i)) of
        Inl err \<Rightarrow> Throws err (h, s)
      | Inr True \<Rightarrow>
          (case getProperty (ipInfoCache s) (lookupKeyOf (trafficRecords s ! i)) of
             Some (Some cached) \<Rightarrow>
               enrichWithIpInfo_from (Suc i) d True
                 (applyIpInfoResult (lookupKeyOf (trafficRecords s ! i)) cached s)
           | _ \<Rightarrow> enrichWithIpInfo_from (Suc i) d h s)
      | Inr False \<Rightarrow>
          if ipInfoDailyCount s \<ge> ipInfoDailyLimit s then Normal (h, s)
          else enrichWithIpInfo_from (Suc i) (d + 100) h
                 (s\<lparr>effects := effects s @ [SetTimeout d (lookupKeyOf (trafficRecords s ! i)) i]\<rparr>))"
  by (subst enrichWithIpInfo_from.simps) (simp add: ipInfoCandidate_def Let_def)

text \<open>A relation that every step of the loop respects holds across the loop.\<close>

lemma ipinfo_loop_relation:
  assumes refl: "\<And>s. R s s"
    and trans: "\<And>a b c. R a b \<Longrightarrow> R b c \<Longrightarrow> R a c"
    and hit: "\<And>s k cached. R s (applyIpInfoResult k cached s)"
    and sched: "\<And>s d k i. ipInfoDailyCount s < ipInfoDailyLimit s \<Longrightarrow>
                  R s (s\<lparr>effects := effects s @ [SetTimeout d k i]\<rparr>)"
  shows "R s (snd (stateOf (enrichWithIpInfo_from i d h s)))"
proof (induction "length (trafficRecords s) - i" arbitrary: i d h s)
  case 0
  then have "\<not> i < length (trafficRecords s)" by simp
  then show ?case by (simp add: ipinfo_done stateOf_def refl)
next
  case (Suc n)
  then have inside: "i < length (trafficRecords s)" by simp
  have next_step: "\<And>s1 d1 h1. length (trafficRecords s1) = length (trafficRecords s) \<Longrightarrow>
           R s1 (snd (stateOf (enrichWithIpInfo_from (Suc i) d1 h1 s1)))"
    using Suc.hyps(2) by (intro Suc.hyps(1)) simp
  show ?case
  proof (cases "ipInfoCandidate s i")
    case False
    with inside next_step [of s d h] show ?thesis by (simp add: ipinfo_skip)
  next
    case True
    let ?k = "lookupKeyOf (trafficRecords s ! i)"
    show ?thesis
    proof (cases "hasOwnProperty (ipInfoCache s) ?k")
      case (Inl err)
      with True show ?thesis by (simp add: ipinfo_candidate stateOf_def refl)
    next
      case (Inr present)
      show ?thesis
      proof (cases present)
        case False
        show ?thesis
        proof (cases "ipInfoDailyCount s \<ge> ipInfoDailyLimit s")
          case True
          with \<open>ipInfoCandidate s i\<close> Inr False show ?thesis
            by (simp add: ipinfo_candidate stateOf_def refl)
        next
          case below: False
          let ?s1 = "s\<lparr>effects := effects s @ [SetTimeout d ?k i]\<rparr>"
          have "R s ?s1" using below by (intro sched) simp
          moreover have "R ?s1 (snd (stateOf (enrichWithIpInfo_from (Suc i) (d + 100) h ?s1)))"
            by (rule next_step) simp
          ultimately have "R s (snd (stateOf (enrichWithIpInfo_from (Suc i) (d + 100) h ?s1)))"
            by (rule trans)
          with True Inr False below show ?thesis by (simp add: ipinfo_candidate)
        qed
      next
        case present: True
        show ?thesis
        proof (cases "getProperty (ipInfoCache s) ?k")
          case None
          with True Inr present next_step [of s d h] show ?thesis
            by (simp add: ipinfo_candidate)
        next
          case (Some v)
          show ?thesis
          proof (cases v)
            case None
            with Some True Inr present next_step [of s d h] show ?thesis
              by (simp add: ipinfo_candidate)
          next
            case (Some cached)
            let ?s1 = "applyIpInfoResult ?k cached s"
            have "R s ?s1" by (rule hit)
            moreover have "R ?s1 (snd (stateOf (enrichWithIpInfo_from (Suc i) d True ?s1)))"
              by (rule next_step) (simp add: applyIpInfoResult_def)
            ultimately have "R s (snd (stateOf (enrichWithIpInfo_from (Suc i) d True ?s1)))"
              by (rule trans)
            with \<open>getProperty (ipInfoCache s) ?k = Some v\<close> Some True Inr present
            show ?thesis by (simp add: ipinfo_candidate)
          qed
        qed
      qed
    qed
  qed
qed

lemma enrichWithIpInfo_from_fills:
  "enrichedFrom (trafficRecords s)
     (trafficRecords (snd (stateOf (enrichWithIpInfo_from i d h s))))"
proof (rule ipinfo_loop_relation [where R = "\<lambda>a b. enrichedFrom (trafficRecords a) (trafficRecords b)"])
  show "\<And>s. enrichedFrom (trafficRecords s) (trafficRecords s)" by (rule enrichedFrom_refl)
  show "\<And>a b c. enrichedFrom (trafficRecords a) (trafficRecords b) \<Longrightarrow>
          enrichedFrom (trafficRecords b) (trafficRecords c) \<Longrightarrow>
          enrichedFrom (trafficRecords a) (trafficRecords c)"
    by (rule enrichedFrom_trans)
  show "\<And>s k cached. enrichedFrom (trafficRecords s) (trafficRecords (applyIpInfoResult k cached s))"
    by (rule applyIpInfoResult_fills)
  show "\<And>s d k i. ipInfoDailyCount s < ipInfoDailyLimit s \<Longrightarrow>
          enrichedFrom (trafficRecords s)
            (trafficRecords (s\<lparr>effects := effects s @ [SetTimeout d k i]\<rparr>))"
    by (simp add: enrichedFrom_refl)
qed

lemma enrichWithIpInfo_records:
  "trafficRecords (stateOf (enrichWithIpInfo s))
   = trafficRecords (snd (stateOf (enrichWithIpInfo_from 0 0 False s)))"
  by (simp add: enrichWithIpInfo_def stateOf_def split: outcome.split prod.split)

lemma enrich_fills: "enrichedFrom (trafficRecords s) (trafficRecords (enrich e s ev))"
proof (cases ev)
  case ReverseDnsPass
  then show ?thesis
    by (simp add: enrichWithReverseDns_def enrichWithReverseDns_from_fills)
next
  case (HostAnswered ipAddress match)
  have "\<And>host. enrichedFrom (trafficRecords s)
          (map (\<lambda>r. if address r = ipAddress \<and> url r = [] then r\<lparr>url := host\<rparr> else r)
             (trafficRecords s))"
    by (rule enrichedFrom_map) (simp add: fillsOnly_def)
  with HostAnswered show ?thesis
    by (simp add: performReverseDns_then_def reverseDnsNegative_def enrichedFrom_refl
             split: option.split)
next
  case (HostFailed ipAddress)
  then show ?thesis
    by (simp add: performReverseDns_catch_def reverseDnsNegative_def enrichedFrom_refl)
next
  case IpInfoPass
  then show ?thesis
    by (simp add: enrichWithIpInfo_records enrichWithIpInfo_from_fills)
next
  case (TimerFired lookupKey recordIndex)
  then show ?thesis
    by (simp add: performIpInfoLookup_def stateOf_def enrichedFrom_refl applyIpInfoResult_fills
             split: sum.split bool.split option.split)
next
  case (IpInfoAnswered lookupKey out)
  have "\<And>result. enrichedFrom (trafficRecords s)
          (map (applyToRecord lookupKey result) (trafficRecords s))"
    by (rule enrichedFrom_map) (rule fillsOnly_applyToRecord)
  with IpInfoAnswered show ?thesis
    by (simp add: performIpInfoLookup_then_def ipInfoNegative_def enrichedFrom_refl
          applyIpInfoResult_def saveIpInfoUsage_def Let_def split: ipInfoOutput.split)
next
  case (IpInfoFailed lookupKey)
  then show ?thesis
    by (simp add: performIpInfoLookup_catch_def ipInfoNegative_def enrichedFrom_refl)
qed

lemma enrich_all_fills:
  "enrichedFrom (trafficRecords s) (trafficRecords (foldl (enrich e) s evs))"
proof (induction evs arbitrary: s)
  case Nil
  show ?case by (simp add: enrichedFrom_refl)
next
  case (Cons ev evs)
  have "enrichedFrom (trafficRecords s) (trafficRecords (enrich e s ev))"
    by (rule enrich_fills)
  moreover have "enrichedFrom (trafficRecords (enrich e s ev))
                   (trafficRecords (foldl (enrich e) (enrich e s ev) evs))"
    by (rule Cons.IH)
  ultimately show ?case by (simp del: enrich.simps) (rule enrichedFrom_trans)
qed

lemmas object_defs =
  emptyObject_def hasOwnProperty_def hasOwn_def getProperty_def setProperty_def
  deleteProperty_def truthyProperty_def objectPrototypeNames_def

lemmas example_defs =
  scenarioD_def quotaReached_def cachedBehindGate_def initialState_def cdnResult_def
  byAddress_def byName_def

text \<open>
  Claim C6: after any sequence of enrichment steps (the two passes, a timer running
  \<^verbatim>\<open>performIpInfoLookup\<close>, the answer or the failure of a lookup, for any key and in any
  order), the record set has the same length, and every url, address, category and data
  field that was non-empty before has the value it had.
\<close>

theorem enrichment_only_fills_empty_fields:
  "length (trafficRecords (foldl (enrich e) s evs)) = length (trafficRecords s)
   \<and> (\<forall>i < length (trafficRecords s).
         fillsOnly (trafficRecords s ! i) (trafficRecords (foldl (enrich e) s evs) ! i))"
  using enrich_all_fills [of s e evs]
  by (simp add: enrichedFrom_def list_all2_conv_all_nth)

text \<open>
  The witness: a record that already has an owner label goes through a reverse DNS pass
  (the cache knows a hostname), the answer of an ipinfo lookup with another hostname and
  an owner, and a late answer of a \<^verbatim>\<open>host\<close> lookup with a third hostname.
\<close>

theorem enrichment_only_fills_empty_fields_witness:
  "trafficRecords
     (foldl (enrich demoEnv)
        (scenarioD\<lparr>trafficRecords :=
           [(byAddress ''160.79.104.10'')\<lparr>category := ''Labelled by hand''\<rparr>]\<rparr>)
        [ReverseDnsPass, IpInfoAnswered ''160.79.104.10'' (JsonValue cdnResult),
         HostAnswered ''160.79.104.10'' (Some ''late.example.org'')])
   = [(byAddress ''160.79.104.10'')
        \<lparr>url := ''cdn.example.com'', category := ''Labelled by hand'',
         data := ''America/Chicago''\<rparr>]
   \<and> fillsOnly ((byAddress ''160.79.104.10'')\<lparr>category := ''Labelled by hand''\<rparr>)
        ((byAddress ''160.79.104.10'')
           \<lparr>url := ''cdn.example.com'', category := ''Labelled by hand'',
            data := ''America/Chicago''\<rparr>)"
proof -
  let ?s = "scenarioD\<lparr>trafficRecords :=
              [(byAddress ''160.79.104.10'')\<lparr>category := ''Labelled by hand''\<rparr>]\<rparr>"
  let ?evs = "[ReverseDnsPass, IpInfoAnswered ''160.79.104.10'' (JsonValue cdnResult),
               HostAnswered ''160.79.104.10'' (Some ''late.example.org'')]"
  have run: "trafficRecords (foldl (enrich demoEnv) ?s ?evs)
             = [(byAddress ''160.79.104.10'')
                  \<lparr>url := ''cdn.example.com'', category := ''Labelled by hand'',
                   data := ''America/Chicago''\<rparr>]"
    by (simp add: enrichWithReverseDns_def rdns_done rdns_step performReverseDns_def
        performReverseDns_then_def performIpInfoLookup_then_def applyIpInfoResult_def
        applyToRecord_def saveIpInfoUsage_def stateOf_def object_defs example_defs Let_def)
  have len: "0 < length (trafficRecords ?s)" by simp
  show ?thesis
    using enrichment_only_fills_empty_fields [of demoEnv ?s ?evs] run len by simp
qed

subsection \<open>Cache hits\<close>

lemma hasOwnProperty_ordinary:
  "ordinaryObject obj \<Longrightarrow> hasOwnProperty obj k = Inr (hasOwn obj k)"
  by (simp add: ordinaryObject_def hasOwnProperty_def)

lemma performReverseDns_hit:
  assumes "hasOwnProperty (reverseDnsCache s) ipAddress = Inr True"
    and "getProperty (reverseDnsCache s) ipAddress = Some (Some cached)"
    and "cached \<noteq> []" and "recordIndex < length (trafficRecords s)"
  shows "performReverseDns ipAddress recordIndex s =
           Normal (s\<lparr>trafficRecords :=
                      (trafficRecords s)[recordIndex :=
                         (trafficRecords s ! recordIndex)\<lparr>url := cached\<rparr>]\<rparr>)"
  using assms by (simp add: performReverseDns_def)

lemma getProperty_hasOwn: "getProperty obj k = Some v \<Longrightarrow> hasOwn obj k"
  by (simp add: getProperty_def hasOwn_def)

lemma not_hasOwn_getProperty: "\<not> hasOwn obj k \<Longrightarrow> getProperty obj k = None"
  by (simp add: getProperty_def hasOwn_def)

text \<open>One call on an ordinary cache never throws and leaves the cache alone.\<close>

lemma performReverseDns_ordinary:
  assumes "ordinaryObject (reverseDnsCache s)" and "i < length (trafficRecords s)"
    and "address (trafficRecords s ! i) \<noteq> []" "url (trafficRecords s ! i) = []"
  shows "\<exists>s1. performReverseDns (address (trafficRecords s ! i)) i s = Normal s1
           \<and> reverseDnsCache s1 = reverseDnsCache s
           \<and> trafficRecords s1
               = (trafficRecords s)[i := fillFromDnsCache (reverseDnsCache s) (trafficRecords s ! i)]
           \<and> (effects s1 = effects s
               \<or> (\<not> hasOwn (reverseDnsCache s) (address (trafficRecords s ! i))
                   \<and> effects s1 = effects s @ [SpawnHost (address (trafficRecords s ! i))]))"
proof (cases "hasOwn (reverseDnsCache s) (address (trafficRecords s ! i))")
  case False
  then show ?thesis
    using assms
    by (simp add: performReverseDns_def hasOwnProperty_ordinary fillFromDnsCache_def
          cachedHost_def not_hasOwn_getProperty)
next
  case True
  then show ?thesis
    using assms
    by (auto simp: performReverseDns_def hasOwnProperty_ordinary fillFromDnsCache_def
          cachedHost_def split: option.split)
qed

lemma rdns_pass_from:
  assumes "ordinaryObject (reverseDnsCache s)"
  shows "\<exists>s'. enrichWithReverseDns_from i s = Normal s'
           \<and> length (trafficRecords s') = length (trafficRecords s)
           \<and> (\<forall>j < length (trafficRecords s).
                 trafficRecords s' ! j =
                   (if j < i then trafficRecords s ! j
                    else fillFromDnsCache (reverseDnsCache s) (trafficRecords s ! j)))
           \<and> (\<exists>spawned. effects s' = effects s @ spawned
                 \<and> (\<forall>x \<in> set spawned. \<exists>ipAddress. x = SpawnHost ipAddress
                        \<and> \<not> hasOwn (reverseDnsCache s) ipAddress))"
  using assms
proof (induction "length (trafficRecords s) - i" arbitrary: i s)
  case 0
  then have "\<not> i < length (trafficRecords s)" by simp
  then show ?case by (simp add: rdns_done)
next
  case (Suc n)
  then have inside: "i < length (trafficRecords s)" by simp
  let ?r = "trafficRecords s ! i" and ?cache = "reverseDnsCache s"
  show ?case
  proof (cases "address ?r \<noteq> [] \<and> url ?r = []")
    case False
    from Suc.hyps(2) have "n = length (trafficRecords s) - Suc i" by simp
    from Suc.hyps(1) [OF this Suc.prems] obtain s' spawned where
      run: "enrichWithReverseDns_from (Suc i) s = Normal s'"
      and len: "length (trafficRecords s') = length (trafficRecords s)"
      and recs: "\<forall>j < length (trafficRecords s). trafficRecords s' ! j =
                   (if j < Suc i then trafficRecords s ! j
                    else fillFromDnsCache ?cache (trafficRecords s ! j))"
      and eff: "effects s' = effects s @ spawned"
               "\<forall>x \<in> set spawned. \<exists>ipAddress. x = SpawnHost ipAddress \<and> \<not> hasOwn ?cache ipAddress"
      by blast
    have same: "fillFromDnsCache ?cache ?r = ?r"
      using False by (auto simp: fillFromDnsCache_def)
    have "\<forall>j < length (trafficRecords s). trafficRecords s' ! j =
                   (if j < i then trafficRecords s ! j
                    else fillFromDnsCache ?cache (trafficRecords s ! j))"
    proof (intro allI impI)
      fix j assume "j < length (trafficRecords s)"
      with recs same show "trafficRecords s' ! j =
                   (if j < i then trafficRecords s ! j
                    else fillFromDnsCache ?cache (trafficRecords s ! j))"
        by (cases "j = i") (auto simp: less_Suc_eq)
    qed
    moreover have "enrichWithReverseDns_from i s = Normal s'"
      using inside False run by (simp add: rdns_skip)
    ultimately show ?thesis using len eff by blast
  next
    case True
    from performReverseDns_ordinary [OF Suc.prems inside] True obtain s1 where
      call: "performReverseDns (address ?r) i s = Normal s1"
      and cache1: "reverseDnsCache s1 = ?cache"
      and recs1: "trafficRecords s1 = (trafficRecords s)[i := fillFromDnsCache ?cache ?r]"
      and eff1: "effects s1 = effects s
               \<or> (\<not> hasOwn ?cache (address ?r) \<and> effects s1 = effects s @ [SpawnHost (address ?r)])"
      by blast
    have len1: "length (trafficRecords s1) = length (trafficRecords s)"
      using recs1 by simp
    have "n = length (trafficRecords s1) - Suc i" using Suc.hyps(2) len1 by simp
    moreover have "ordinaryObject (reverseDnsCache s1)" using cache1 Suc.prems by simp
    ultimately obtain s' spawned where
      run: "enrichWithReverseDns_from (Suc i) s1 = Normal s'"
      and len: "length (trafficRecords s') = length (trafficRecords s1)"
      and recs: "\<forall>j < length (trafficRecords s1). trafficRecords s' ! j =
                   (if j < Suc i then trafficRecords s1 ! j
                    else fillFromDnsCache (reverseDnsCache s1) (trafficRecords s1 ! j))"
      and eff: "effects s' = effects s1 @ spawned"
               "\<forall>x \<in> set spawned. \<exists>ipAddress. x = SpawnHost ipAddress
                   \<and> \<not> hasOwn (reverseDnsCache s1) ipAddress"
      using Suc.hyps(1) [of s1 "Suc i"] by blast
    have "\<forall>j < length (trafficRecords s). trafficRecords s' ! j =
                   (if j < i then trafficRecords s ! j
                    else fillFromDnsCache ?cache (trafficRecords s ! j))"
    proof (intro allI impI)
      fix j assume j: "j < length (trafficRecords s)"
      with recs len1 have "trafficRecords s' ! j =
                   (if j < Suc i then trafficRecords s1 ! j
                    else fillFromDnsCache (reverseDnsCache s1) (trafficRecords s1 ! j))"
        by simp
      then show "trafficRecords s' ! j =
                   (if j < i then trafficRecords s ! j
                    else fillFromDnsCache ?cache (trafficRecords s ! j))"
        using j recs1 cache1 inside by (cases "j = i") (auto simp: less_Suc_eq)
    qed
    moreover have "enrichWithReverseDns_from i s = Normal s'"
      using inside True call run by (simp add: rdns_step)
    moreover have "\<exists>spawned'. effects s' = effects s @ spawned'
                 \<and> (\<forall>x \<in> set spawned'. \<exists>ipAddress. x = SpawnHost ipAddress
                        \<and> \<not> hasOwn ?cache ipAddress)"
      using eff1
    proof
      assume "effects s1 = effects s"
      with eff cache1 show ?thesis by auto
    next
      assume "\<not> hasOwn ?cache (address ?r) \<and> effects s1 = effects s @ [SpawnHost (address ?r)]"
      with eff cache1 have "effects s' = effects s @ (SpawnHost (address ?r) # spawned)"
        and "\<forall>x \<in> set (SpawnHost (address ?r) # spawned). \<exists>ipAddress. x = SpawnHost ipAddress
                        \<and> \<not> hasOwn ?cache ipAddress"
        by auto
      then show ?thesis by blast
    qed
    ultimately show ?thesis using len len1 by auto
  qed
qed

lemma rdns_pass:
  assumes "ordinaryObject (reverseDnsCache s)"
  shows "\<exists>s'. enrichWithReverseDns s = Normal s'
           \<and> trafficRecords s' = map (fillFromDnsCache (reverseDnsCache s)) (trafficRecords s)
           \<and> (\<exists>spawned. effects s' = effects s @ spawned
                 \<and> (\<forall>x \<in> set spawned. \<exists>ipAddress. x = SpawnHost ipAddress
                        \<and> \<not> hasOwn (reverseDnsCache s) ipAddress))"
proof -
  from rdns_pass_from [OF assms, of 0] obtain s' where
    run: "enrichWithReverseDns_from 0 s = Normal s'"
    and len: "length (trafficRecords s') = length (trafficRecords s)"
    and recs: "\<forall>j < length (trafficRecords s).
                 trafficRecords s' ! j = fillFromDnsCache (reverseDnsCache s) (trafficRecords s ! j)"
    and eff: "\<exists>spawned. effects s' = effects s @ spawned
                 \<and> (\<forall>x \<in> set spawned. \<exists>ipAddress. x = SpawnHost ipAddress
                        \<and> \<not> hasOwn (reverseDnsCache s) ipAddress)"
    by auto
  have "trafficRecords s' = map (fillFromDnsCache (reverseDnsCache s)) (trafficRecords s)"
    using len recs by (intro nth_equalityI) simp_all
  with run eff show ?thesis by (auto simp: enrichWithReverseDns_def)
qed

lemma ipinfo_hit:
  assumes "ipInfoCandidate s i"
    and "hasOwnProperty (ipInfoCache s) (lookupKeyOf (trafficRecords s ! i)) = Inr True"
    and "getProperty (ipInfoCache s) (lookupKeyOf (trafficRecords s ! i)) = Some (Some cached)"
  shows "enrichWithIpInfo_from i d h s =
           enrichWithIpInfo_from (Suc i) d True
             (applyIpInfoResult (lookupKeyOf (trafficRecords s ! i)) cached s)"
  using assms by (simp add: ipinfo_candidate)

text \<open>
  Scenario D of the specification: the reverse DNS cache holds \<open>cdn.example.com\<close> for the
  address of the one record, and the ipinfo cache holds a result for it. The reverse DNS
  pass fills the url and spawns nothing; the ipinfo pass fills url, owner and timezone from
  the cached result, sets no timer, and renders once.
\<close>

lemma scenario_D:
  "enrichWithReverseDns scenarioD
     = Normal (scenarioD\<lparr>trafficRecords :=
         [(byAddress ''160.79.104.10'')\<lparr>url := ''cdn.example.com''\<rparr>]\<rparr>)
   \<and> enrichWithIpInfo scenarioD
     = Normal (scenarioD
         \<lparr>trafficRecords :=
            [(byAddress ''160.79.104.10'')
               \<lparr>url := ''edge.example.net'', category := ''AS64500 Example Networks'',
                data := ''America/Chicago''\<rparr>],
          effects := [RenderTable]\<rparr>)"
  by (simp add: enrichWithReverseDns_def rdns_done rdns_step performReverseDns_def
      enrichWithIpInfo_def ipinfo_done ipinfo_candidate ipInfoCandidate_def lookupKeyOf_def
      applyIpInfoResult_def applyToRecord_def object_defs example_defs Let_def)

subsection \<open>The quota gate\<close>

text \<open>With the count at or above the limit, the loop sets no timer.\<close>

lemma quota_relation:
  "ipInfoDailyLimit s \<le> ipInfoDailyCount s \<longrightarrow>
     ipInfoDailyLimit (snd (stateOf (enrichWithIpInfo_from i d h s))) = ipInfoDailyLimit s
     \<and> ipInfoDailyCount (snd (stateOf (enrichWithIpInfo_from i d h s))) = ipInfoDailyCount s
     \<and> effects (snd (stateOf (enrichWithIpInfo_from i d h s))) = effects s"
  by (rule ipinfo_loop_relation
        [where R = "\<lambda>a b. ipInfoDailyLimit a \<le> ipInfoDailyCount a \<longrightarrow>
                       ipInfoDailyLimit b = ipInfoDailyLimit a
                       \<and> ipInfoDailyCount b = ipInfoDailyCount a \<and> effects b = effects a"])
     (simp_all add: applyIpInfoResult_def)

text \<open>
  At or above the limit, a pass adds at most the one \<^verbatim>\<open>renderTable\<close> call to the trace,
  and a timer that runs \<^verbatim>\<open>performIpInfoLookup\<close> spawns nothing: no new lookup is issued.
\<close>

lemma quota_stops_scheduling:
  assumes "ipInfoDailyLimit s \<le> ipInfoDailyCount s"
  shows "effects (stateOf (enrichWithIpInfo s)) = effects s
         \<or> effects (stateOf (enrichWithIpInfo s)) = effects s @ [RenderTable]"
proof -
  have "effects (snd (stateOf (enrichWithIpInfo_from 0 0 False s))) = effects s"
    using assms quota_relation [of s 0 0 False] by simp
  then show ?thesis
    by (auto simp: enrichWithIpInfo_def stateOf_def split: outcome.splits prod.splits)
qed

lemma quota_stops_spawn:
  assumes "ipInfoDailyLimit s \<le> ipInfoDailyCount s"
  shows "effects (stateOf (performIpInfoLookup lookupKey recordIndex s)) = effects s"
  using assms
  by (simp add: performIpInfoLookup_def stateOf_def applyIpInfoResult_def
           split: sum.split bool.split option.split)

text \<open>
  Claim C4 holds in its first half (the two lemmas above) and fails in its second: the
  gate is a \<^verbatim>\<open>break\<close>, so the pass ends at the first record whose key is not cached. In
  \<open>quotaReached\<close> the count is at the limit, the first record has a key that is not cached
  and the second a key that is: the pass returns the state as it found it, the second
  record not enriched. With the two records in the other order the same pass enriches
  that record.
\<close>

theorem quota_gate_ends_the_pass:
  "ipInfoDailyLimit quotaReached = ipInfoDailyCount quotaReached
   \<and> enrichWithIpInfo quotaReached = Normal quotaReached
   \<and> enrichWithIpInfo
       (quotaReached\<lparr>trafficRecords := [byAddress ''160.79.104.10'', byAddress ''9.9.9.9'']\<rparr>)
     = Normal
         (quotaReached
            \<lparr>trafficRecords :=
               [(byAddress ''160.79.104.10'')
                  \<lparr>url := ''edge.example.net'', category := ''AS64500 Example Networks'',
                   data := ''America/Chicago''\<rparr>,
                byAddress ''9.9.9.9''],
             effects := [RenderTable]\<rparr>)"
  by (simp add: enrichWithIpInfo_def ipinfo_done ipinfo_candidate ipInfoCandidate_def
      lookupKeyOf_def applyIpInfoResult_def applyToRecord_def object_defs example_defs Let_def)

text \<open>
  Claim C3: in every enrichment pass, a lookup key that is in the cache with a value that is
  not negative has that value applied, within the pass, to every current record matching
  the key, and no external call is made for it. The reverse DNS pass does so (lemma
  \<open>rdns_pass\<close>), and so does every cache hit that the ipinfo loop reaches (lemma
  \<open>ipinfo_hit\<close>, where \<^verbatim>\<open>applyIpInfoResult\<close> maps over the whole record set). The ipinfo
  pass does not reach every record: the \<^verbatim>\<open>break\<close> of the quota gate ends it at the first
  record whose key is not cached. In \<open>cachedBehindGate\<close> the record at index 1 qualifies,
  its key \<open>160.79.104.10\<close> is an own property of the cache with a result, and the count
  is at the limit: the pass returns the state unchanged, where applying the cached result
  fills url, owner and timezone of that record. With the count one below the limit, the
  pass over the same records applies it.
\<close>

theorem cached_result_behind_gate_is_not_applied:
  "ipInfoCandidate cachedBehindGate 1
   \<and> lookupKeyOf (trafficRecords cachedBehindGate ! 1) = ''160.79.104.10''
   \<and> hasOwnProperty (ipInfoCache cachedBehindGate) ''160.79.104.10'' = Inr True
   \<and> getProperty (ipInfoCache cachedBehindGate) ''160.79.104.10'' = Some (Some cdnResult)
   \<and> ipInfoDailyCount cachedBehindGate = ipInfoDailyLimit cachedBehindGate
   \<and> enrichWithIpInfo cachedBehindGate = Normal cachedBehindGate
   \<and> applyIpInfoResult ''160.79.104.10'' cdnResult cachedBehindGate
     = cachedBehindGate
         \<lparr>trafficRecords :=
            [byName ''example.org'',
             (byAddress ''160.79.104.10'')
               \<lparr>url := ''edge.example.net'', category := ''AS64500 Example Networks'',
                data := ''America/Chicago''\<rparr>]\<rparr>
   \<and> enrichWithIpInfo (cachedBehindGate\<lparr>ipInfoDailyCount := 999\<rparr>)
     = Normal
         (cachedBehindGate
            \<lparr>trafficRecords :=
               [byName ''example.org'',
                (byAddress ''160.79.104.10'')
                  \<lparr>url := ''edge.example.net'', category := ''AS64500 Example Networks'',
                   data := ''America/Chicago''\<rparr>],
             ipInfoDailyCount := 999,
             effects := [SetTimeout 0 ''example.org'' 0, RenderTable]\<rparr>)"
  by (simp add: enrichWithIpInfo_def ipinfo_done ipinfo_candidate ipInfoCandidate_def
      lookupKeyOf_def applyIpInfoResult_def applyToRecord_def object_defs example_defs Let_def)

end
